theory Spec2Isabelle
  imports Complex_Main
begin

section \<open>The data frame and the ledger\<close>

text \<open>
  The engine of \<^verbatim>\<open>signaltest.py\<close> works on a pandas data frame, one row per bar.
  A frame is modelled as the list of its rows; the index is the strictly increasing
  \<^verbatim>\<open>DatetimeIndex\<close> of the downloaded series, so a label is represented by its position
  and \<^verbatim>\<open>data.index.get_loc\<close> is the identity on it.

  Prices and money are doubles (numpy \<^verbatim>\<open>float64\<close>). A finite double is modelled as the
  real number it denotes, and each arithmetic operation of the ledger rounds its result
  with a function \<open>rnd\<close> that the model takes as a parameter: with \<open>float64\<close> (round to
  nearest, ties to even, 53 bits) it is the arithmetic of the program, with \<open>exact\<close> (no
  rounding) the arithmetic of the real numbers, in which the formulas of the specification
  are written. An indicator value is a \<open>real option\<close>, \<open>None\<close> being pandas' NaN of the
  warm-up prefix. Of the columns of the frame, the model keeps those that
  \<^verbatim>\<open>evaluate_signals\<close> and \<^verbatim>\<open>run_simulation\<close> read or write.
\<close>

datatype action = Buy | Sell

datatype error =
  TypeError \<comment> \<open>\<^verbatim>\<open>max\<close> applied to a \<^verbatim>\<open>None\<close> label\<close>
| NonFinite \<comment> \<open>floor division by a close price of zero: the value is infinite or NaN\<close>

record row =
  Close :: real
  MACD :: "real option"
  MACDSignal :: "real option"
  PLUS_DI :: "real option"
  MINUS_DI :: "real option"
  Buy_Signal :: int
  Sell_Signal :: int
  Portfolio_Value :: real
  Buy_Condition :: bool
  Sell_Condition :: bool

text \<open>One line of the journal: \<^verbatim>\<open>[Date, Action, Price, Quantity, Cash, Portfolio_Value]\<close>.\<close>

record transaction =
  tx_Date :: nat
  tx_Action :: action
  tx_Price :: real
  tx_Quantity :: real
  tx_Cash :: real
  tx_Portfolio_Value :: real

text \<open>The local variables of \<^verbatim>\<open>run_simulation\<close> that the loop carries from bar to bar.\<close>

record sim_state =
  cash :: real
  stock_quantity :: real
  transactions :: "transaction list"
  last_action :: "action option"
  total_trades :: nat
  successful_trades :: nat
  last_buy_price :: real

text \<open>
  What \<^verbatim>\<open>run_simulation\<close> hands back: the journal and the two counters it returns, and
  the frame it has written \<^verbatim>\<open>Buy_Signal\<close>, \<^verbatim>\<open>Sell_Signal\<close> and \<^verbatim>\<open>Portfolio_Value\<close> into.
\<close>

record run_result =
  rr_data :: "row list"
  rr_transactions :: "transaction list"
  rr_total_trades :: nat
  rr_successful_trades :: nat

section \<open>Signal evaluation\<close>

text \<open>A comparison of two series elements; with NaN on either side it is false.\<close>

fun nan_gt :: "real option \<Rightarrow> real option \<Rightarrow> bool" where
  "nan_gt (Some a) (Some b) = (a > b)"
| "nan_gt _ _ = False"

fun nan_lt :: "real option \<Rightarrow> real option \<Rightarrow> bool" where
  "nan_lt (Some a) (Some b) = (a < b)"
| "nan_lt _ _ = False"

definition initialize_columns :: "row list \<Rightarrow> row list" where
  "initialize_columns data =
     map (\<lambda>r. r\<lparr>Buy_Signal := 0, Sell_Signal := 0, Portfolio_Value := 0\<rparr>) data"

definition evaluate_signals :: "row list \<Rightarrow> row list" where
  "evaluate_signals data =
     map (\<lambda>r. r\<lparr>Buy_Condition :=
                   nan_gt (PLUS_DI r) (MINUS_DI r) \<and> nan_gt (MACD r) (MACDSignal r),
                 Sell_Condition :=
                   nan_gt (MINUS_DI r) (PLUS_DI r) \<and> nan_lt (MACD r) (MACDSignal r)\<rparr>) data"

section \<open>Double arithmetic\<close>

text \<open>
  \<open>float64 x\<close> is the double nearest to \<open>x\<close>, ties going to the even significand: with
  \<open>2 ^ n \<le> \<bar>x\<bar> < 2 ^ (n + 1)\<close> the doubles around \<open>x\<close> are the multiples of
  \<open>2 ^ (n - 52)\<close>. The exponent is not bounded, so that a result of \<open>2 ^ 1024\<close> and more is
  a number of the model where the program has an infinity, and the sign of zero is not
  modelled. The statements about \<open>float64\<close> below bound the cash, the prices and the
  quotients (by \<open>2 ^ 1000\<close> and less) wherever an operation could leave the range of the
  doubles; inside these bounds no operation of the ledger overflows, and none loses
  precision by underflow: its operands are doubles, and a sum, a difference or a product
  by a whole number that falls below \<open>2 ^ -1022\<close> is a multiple of \<open>2 ^ -1074\<close> and exact.
\<close>

definition pow2 :: "int \<Rightarrow> real" where
  "pow2 e = (if 0 \<le> e then 2 ^ nat e else 1 / 2 ^ nat (- e))"

definition round_half_even :: "real \<Rightarrow> int" where
  "round_half_even y =
     (let f = \<lfloor>y\<rfloor>; d = y - of_int f
      in if d < 1 / 2 then f else if 1 / 2 < d then f + 1 else if even f then f else f + 1)"

definition float64 :: "real \<Rightarrow> real" where
  "float64 x =
     (if x = 0 then 0
      else let e = \<lfloor>log 2 \<bar>x\<bar>\<rfloor> - 52
           in of_int (round_half_even (x / pow2 e)) * pow2 e)"

definition exact :: "real \<Rightarrow> real" where
  "exact x = x"

text \<open>C's \<^verbatim>\<open>fmod\<close>: the remainder of the quotient truncated towards zero. It is exact.\<close>

definition fmod :: "real \<Rightarrow> real \<Rightarrow> real" where
  "fmod a b = a - b * of_int (if 0 \<le> a / b then \<lfloor>a / b\<rfloor> else \<lceil>a / b\<rceil>)"

text \<open>
  \<^verbatim>\<open>//\<close> on doubles, for a divisor that is not zero, as numpy's \<^verbatim>\<open>npy_divmod\<close> and
  CPython's \<^verbatim>\<open>float_divmod\<close> compute it: the quotient \<^verbatim>\<open>(a - mod) / b\<close> is taken in
  rounded arithmetic, lowered by one when the remainder and the divisor differ in sign,
  and snapped to the nearest whole number.
\<close>

definition floor_divide :: "(real \<Rightarrow> real) \<Rightarrow> real \<Rightarrow> real \<Rightarrow> real" where
  "floor_divide rnd a b =
     (let m = fmod a b;
          d = rnd (rnd (a - m) / b);
          d = (if m \<noteq> 0 \<and> (b < 0) \<noteq> (m < 0) then rnd (d - 1) else d)
      in if d \<noteq> 0 then
           let floordiv = of_int \<lfloor>d\<rfloor>
           in if 1 / 2 < rnd (d - floordiv) then rnd (floordiv + 1) else floordiv
         else 0)"

section \<open>The simulation\<close>

text \<open>\<^verbatim>\<open>Series.first_valid_index()\<close>: the first position holding a value, \<open>None\<close> if there is none.\<close>

fun first_valid_index :: "'a option list \<Rightarrow> nat option" where
  "first_valid_index [] = None"
| "first_valid_index (x # xs) =
     (case x of Some _ \<Rightarrow> Some 0 | None \<Rightarrow> map_option Suc (first_valid_index xs))"

text \<open>
  Lines 41 to 43. \<^verbatim>\<open>max\<close> of two labels raises \<^verbatim>\<open>TypeError\<close> as soon as one of them is
  \<^verbatim>\<open>None\<close>.
\<close>

definition start_index :: "row list \<Rightarrow> error + nat" where
  "start_index data =
     (case first_valid_index (map MINUS_DI data) of
        None \<Rightarrow> Inl TypeError
      | Some m \<Rightarrow>
          (case first_valid_index (map PLUS_DI data) of
             None \<Rightarrow> Inl TypeError
           | Some p \<Rightarrow> Inr (max m p)))"

text \<open>
  The body of the loop at position \<open>i\<close>, on row \<open>r\<close> of the frame, in the arithmetic that
  rounds with \<open>rnd\<close>: it returns the row as written back and the new values of the local
  variables. The close price and the quantity are doubles; the cash is the initial cash
  until the first trade, which may be a Python integer, so it enters every operation
  through \<open>rnd\<close>, as numpy converts it. At a close price of zero under a buy the program
  does not stop: the quotient is infinite or NaN and the run goes on with values that
  are not finite. The model has no such values; it ends the run there with \<open>NonFinite\<close>,
  and says nothing about the bars after it.
\<close>

definition loop_body ::
  "(real \<Rightarrow> real) \<Rightarrow> nat \<Rightarrow> row \<Rightarrow> sim_state \<Rightarrow> error + (row \<times> sim_state)" where
  "loop_body rnd i r s =
     (let close_price = Close r in
      if Buy_Condition r \<and> cash s > 0 \<and> last_action s \<noteq> Some Buy then
        if close_price = 0 then Inl NonFinite
        else
          let q = floor_divide rnd (rnd (cash s)) close_price;
              c = rnd (rnd (cash s) - rnd (q * close_price))
          in Inr (r\<lparr>Buy_Signal := 1, Portfolio_Value := rnd (c + rnd (q * close_price))\<rparr>,
                  s\<lparr>cash := c,
                    stock_quantity := q,
                    transactions := transactions s @
                      [\<lparr>tx_Date = i, tx_Action = Buy, tx_Price = close_price,
                        tx_Quantity = q, tx_Cash = c,
                        tx_Portfolio_Value = rnd (c + rnd (q * close_price))\<rparr>],
                    last_action := Some Buy,
                    last_buy_price := close_price\<rparr>)
      else if Sell_Condition r \<and> stock_quantity s > 0 \<and> last_action s \<noteq> Some Sell then
        let c = rnd (rnd (cash s) + rnd (stock_quantity s * close_price))
        in Inr (r\<lparr>Sell_Signal := 1, Portfolio_Value := rnd (c + rnd (0 * close_price))\<rparr>,
                s\<lparr>cash := c,
                  stock_quantity := 0,
                  transactions := transactions s @
                    [\<lparr>tx_Date = i, tx_Action = Sell, tx_Price = close_price,
                      tx_Quantity = 0, tx_Cash = c, tx_Portfolio_Value = c\<rparr>],
                  last_action := Some Sell,
                  total_trades := total_trades s + 1,
                  successful_trades :=
                    (if close_price > last_buy_price s then successful_trades s + 1
                     else successful_trades s)\<rparr>)
      else Inr (r\<lparr>Portfolio_Value :=
                    rnd (rnd (cash s) + rnd (stock_quantity s * close_price))\<rparr>,
                s))"

text \<open>
  \<^verbatim>\<open>for i in range(start_index, len(data))\<close>: the rows from position \<open>i\<close> on, in order.
  An error ends the run.
\<close>

fun loop ::
  "(real \<Rightarrow> real) \<Rightarrow> nat \<Rightarrow> row list \<Rightarrow> sim_state \<Rightarrow> error + (row list \<times> sim_state)" where
  "loop rnd i [] s = Inr ([], s)"
| "loop rnd i (r # rs) s =
     (case loop_body rnd i r s of
        Inl e \<Rightarrow> Inl e
      | Inr (r', s') \<Rightarrow>
          (case loop rnd (Suc i) rs s' of
             Inl e \<Rightarrow> Inl e
           | Inr (rs', s'') \<Rightarrow> Inr (r' # rs', s'')))"

definition initial_state :: "real \<Rightarrow> sim_state" where
  "initial_state initial_cash =
     \<lparr>cash = initial_cash, stock_quantity = 0, transactions = [], last_action = None,
      total_trades = 0, successful_trades = 0, last_buy_price = 0\<rparr>"

definition run_simulation :: "(real \<Rightarrow> real) \<Rightarrow> row list \<Rightarrow> real \<Rightarrow> error + run_result" where
  "run_simulation rnd data initial_cash =
     (case start_index data of
        Inl e \<Rightarrow> Inl e
      | Inr k \<Rightarrow>
          (case loop rnd k (drop k data) (initial_state initial_cash) of
             Inl e \<Rightarrow> Inl e
           | Inr (rs, s) \<Rightarrow>
               Inr \<lparr>rr_data = take k data @ rs,
                    rr_transactions = transactions s,
                    rr_total_trades = total_trades s,
                    rr_successful_trades = successful_trades s\<rparr>))"

section \<open>Predicates on the ledger and example frames\<close>

text \<open>The ledger holds no debt and no short position.\<close>

definition ledger_ok :: "sim_state \<Rightarrow> bool" where
  "ledger_ok s = (0 \<le> cash s \<and> 0 \<le> stock_quantity s)"

text \<open>The same of a ledger whose cash is a double.\<close>

definition ledger_f64 :: "sim_state \<Rightarrow> bool" where
  "ledger_f64 s = (0 \<le> cash s \<and> float64 (cash s) = cash s \<and> 0 \<le> stock_quantity s)"

text \<open>
  Adjacent lines of the journal differ in their action, and \<open>last_action\<close> is the action of
  the line recorded last.
\<close>

definition debounced :: "sim_state \<Rightarrow> bool" where
  "debounced s =
     (distinct_adj (map tx_Action (transactions s)) \<and>
      last_action s =
        (if transactions s = [] then None else Some (tx_Action (last (transactions s)))))"

text \<open>Nothing is held while the journal is empty, and a journal that is not empty starts with a buy.\<close>

definition opens_with_buy :: "sim_state \<Rightarrow> bool" where
  "opens_with_buy s =
     (case transactions s of
        [] \<Rightarrow> stock_quantity s = 0
      | t # _ \<Rightarrow> tx_Action t = Buy)"

text \<open>
  Rows for the examples: \<open>bar c p m a g\<close> closes at \<open>c\<close> with plus-DI \<open>p\<close>, minus-DI \<open>m\<close>,
  MACD \<open>a\<close> and MACD signal \<open>g\<close>, the written columns as \<^verbatim>\<open>initialize_columns\<close> leaves
  them. A \<open>rising\<close> bar satisfies the buy rule, a \<open>falling\<close> bar the sell rule.
\<close>

definition bar :: "real \<Rightarrow> real option \<Rightarrow> real option \<Rightarrow> real option \<Rightarrow> real option \<Rightarrow> row" where
  "bar c p m a g =
     \<lparr>Close = c, MACD = a, MACDSignal = g, PLUS_DI = p, MINUS_DI = m,
      Buy_Signal = 0, Sell_Signal = 0, Portfolio_Value = 0,
      Buy_Condition = False, Sell_Condition = False\<rparr>"

definition rising :: "real \<Rightarrow> row" where
  "rising c = bar c (Some 30) (Some 20) (Some 2) (Some 1)"

definition falling :: "real \<Rightarrow> row" where
  "falling c = bar c (Some 20) (Some 30) (Some 1) (Some 2)"

text \<open>A buy at 100 followed by a sell at 110.\<close>

definition round_trip :: "row list" where
  "round_trip = evaluate_signals [rising 100, falling 110]"

text \<open>The ledger after the buy of \<open>round_trip\<close> with 1000 in cash.\<close>

definition holding :: sim_state where
  "holding =
     \<lparr>cash = 0, stock_quantity = 10,
      transactions =
        [\<lparr>tx_Date = 0, tx_Action = Buy, tx_Price = 100, tx_Quantity = 10,
          tx_Cash = 0, tx_Portfolio_Value = 1000\<rparr>],
      last_action = Some Buy, total_trades = 0, successful_trades = 0,
      last_buy_price = 100\<rparr>"

text \<open>
  A warm-up as the indicators produce it: plus-DI is defined from position 1, minus-DI from
  position 2, MACD and its signal line from position 3 only.
\<close>

definition warm_up :: "row list" where
  "warm_up =
     [bar 100 None None None None,
      bar 101 (Some 30) None None None,
      bar 102 (Some 30) (Some 20) None None,
      bar 103 (Some 30) (Some 20) (Some 2) (Some 1)]"

text \<open>Three bars, fewer than any indicator needs.\<close>

definition too_short :: "row list" where
  "too_short = [bar 100 None None None None, bar 101 None None None None,
                bar 102 None None None None]"

text \<open>The directional indicators are defined, MACD is not yet.\<close>

definition no_macd :: "row list" where
  "no_macd = [bar 100 (Some 30) (Some 20) None None, bar 101 (Some 30) (Some 20) None None]"

text \<open>A close of 11, for an order of more than \<open>2 ^ 53\<close> shares.\<close>

definition penny_bar :: "row list" where
  "penny_bar = evaluate_signals [rising 11]"

section \<open>Rounding to the nearest double\<close>

lemma pow2_powr: "pow2 e = 2 powr of_int e"
  by (simp add: pow2_def powr_real_of_int field_simps)

lemma pow2_pos: "0 < pow2 e"
  by (simp add: pow2_powr)

lemma pow2_add: "pow2 (a + b) = pow2 a * pow2 b"
  by (simp add: pow2_powr powr_add)

lemma pow2_nat: "pow2 (int k) = 2 ^ k"
  by (simp add: pow2_def)

lemma pow2_le_iff: "pow2 a \<le> pow2 b \<longleftrightarrow> a \<le> b"
  by (simp add: pow2_powr)

lemma pow2_53: "pow2 (n - 52) * 2 ^ 53 = pow2 (n + 1)"
proof -
  have "pow2 (n + 1) = pow2 ((n - 52) + int 53)"
    by (rule arg_cong [where f = pow2]) simp
  also have "\<dots> = pow2 (n - 52) * 2 ^ 53" by (simp only: pow2_add pow2_nat)
  finally show ?thesis by simp
qed

lemma pow2_52: "pow2 (n - 52) * 2 ^ 52 = pow2 n"
proof -
  have "pow2 n = pow2 ((n - 52) + int 52)"
    by (rule arg_cong [where f = pow2]) simp
  also have "\<dots> = pow2 (n - 52) * 2 ^ 52" by (simp only: pow2_add pow2_nat)
  finally show ?thesis by simp
qed

lemma round_half_even_of_int: "round_half_even (of_int m) = m"
  by (simp add: round_half_even_def)

lemma round_half_even_error: "\<bar>of_int (round_half_even y) - y\<bar> \<le> 1 / 2"
  unfolding round_half_even_def Let_def
  by (auto simp: abs_le_iff)

lemma round_half_even_upper: "round_half_even y \<le> \<lfloor>y\<rfloor> + 1"
  unfolding round_half_even_def Let_def by auto

lemma round_half_even_le:
  assumes "y \<le> of_int I"
  shows "round_half_even y \<le> I"
proof (cases "\<lfloor>y\<rfloor> = I")
  case True
  have "of_int \<lfloor>y\<rfloor> \<le> y"
    by (rule of_int_floor_le)
  with True assms have "y = of_int I"
    by simp
  then show ?thesis
    by (simp add: round_half_even_of_int)
next
  case False
  from assms have "\<lfloor>y\<rfloor> \<le> I"
    by (simp add: floor_le_iff)
  with False have "\<lfloor>y\<rfloor> + 1 \<le> I"
    by simp
  with round_half_even_upper [of y] show ?thesis
    by linarith
qed

lemma round_half_even_ge:
  assumes "of_int I \<le> y"
  shows "I \<le> round_half_even y"
proof -
  from assms have "I \<le> \<lfloor>y\<rfloor>"
    by (simp add: le_floor_iff)
  then show ?thesis
    unfolding round_half_even_def Let_def by (auto split: if_splits)
qed

lemma binade_exists:
  fixes x :: real
  assumes "x \<noteq> 0"
  shows "\<exists>n::int. pow2 n \<le> \<bar>x\<bar> \<and> \<bar>x\<bar> < pow2 (n + 1)"
proof -
  have "0 < \<bar>x\<bar>" using assms by simp
  then have "2 powr of_int \<lfloor>log 2 \<bar>x\<bar>\<rfloor> \<le> \<bar>x\<bar> \<and>
      \<bar>x\<bar> < 2 powr (of_int \<lfloor>log 2 \<bar>x\<bar>\<rfloor> + 1)"
    using floor_log_eq_powr_iff [of "\<bar>x\<bar>" 2 "\<lfloor>log 2 \<bar>x\<bar>\<rfloor>"] by simp
  then show ?thesis
    by (intro exI [of _ "\<lfloor>log 2 \<bar>x\<bar>\<rfloor>"]) (simp add: pow2_powr)
qed

lemma float64_binade:
  assumes "pow2 n \<le> \<bar>x\<bar>" and "\<bar>x\<bar> < pow2 (n + 1)"
  shows "float64 x = of_int (round_half_even (x / pow2 (n - 52))) * pow2 (n - 52)"
proof -
  have pos: "0 < \<bar>x\<bar>"
    using assms(1) pow2_pos [of n] by linarith
  then have "\<lfloor>log 2 \<bar>x\<bar>\<rfloor> = n"
    using assms floor_log_eq_powr_iff [of "\<bar>x\<bar>" 2 n] by (simp add: pow2_powr)
  with pos show ?thesis
    by (simp add: float64_def Let_def)
qed

lemma float64_zero [simp]: "float64 0 = 0"
  by (simp add: float64_def)

lemma scaled_error:
  fixes u :: real
  assumes "0 < u"
  shows "\<bar>of_int (round_half_even (x / u)) * u - x\<bar> \<le> u / 2"
proof -
  have "\<bar>of_int (round_half_even (x / u)) - x / u\<bar> * u \<le> 1 / 2 * u"
    using round_half_even_error [of "x / u"] assms by (intro mult_right_mono) auto
  moreover have "\<bar>of_int (round_half_even (x / u)) - x / u\<bar> * u =
      \<bar>(of_int (round_half_even (x / u)) - x / u) * u\<bar>"
    using assms by (simp add: abs_mult)
  moreover have "(of_int (round_half_even (x / u)) - x / u) * u =
      of_int (round_half_even (x / u)) * u - x"
    using assms by (simp add: algebra_simps)
  ultimately show ?thesis by simp
qed

lemma float64_error: "\<bar>float64 x - x\<bar> \<le> \<bar>x\<bar> / 2 ^ 53"
proof (cases "x = 0")
  case True
  then show ?thesis by (simp add: float64_zero)
next
  case False
  from binade_exists [OF this] obtain n :: int where
    n: "pow2 n \<le> \<bar>x\<bar>" "\<bar>x\<bar> < pow2 (n + 1)" by blast
  have "\<bar>float64 x - x\<bar> \<le> pow2 (n - 52) / 2"
    using scaled_error [OF pow2_pos, of x "n - 52"] float64_binade [OF n] by simp
  also have "pow2 (n - 52) / 2 = pow2 n / 2 ^ 53"
    using pow2_52 [of n] by simp
  also have "\<dots> \<le> \<bar>x\<bar> / 2 ^ 53"
    using n(1) by (simp add: divide_right_mono)
  finally show ?thesis .
qed

lemma binade_mantissa:
  assumes "pow2 n \<le> \<bar>x\<bar>" and "\<bar>x\<bar> < pow2 (n + 1)"
  shows "\<bar>x / pow2 (n - 52)\<bar> < 2 ^ 53"
proof -
  have "\<bar>x\<bar> < pow2 (n - 52) * 2 ^ 53"
    using assms(2) by (simp only: pow2_53)
  then have "\<bar>x\<bar> / pow2 (n - 52) < 2 ^ 53"
    using pow2_pos [of "n - 52"] by (simp add: pos_divide_less_eq mult.commute)
  then show ?thesis
    using pow2_pos [of "n - 52"] by simp
qed

lemma float64_mantissa:
  assumes "pow2 n \<le> \<bar>x\<bar>" and "\<bar>x\<bar> < pow2 (n + 1)"
  shows "\<bar>round_half_even (x / pow2 (n - 52))\<bar> \<le> 2 ^ 53"
proof -
  from binade_mantissa [OF assms, unfolded abs_less_iff]
  have "x / pow2 (n - 52) \<le> of_int (2 ^ 53)"
    and "of_int (- (2 ^ 53)) \<le> x / pow2 (n - 52)"
    by simp_all
  then have "round_half_even (x / pow2 (n - 52)) \<le> 2 ^ 53"
    and "- (2 ^ 53) \<le> round_half_even (x / pow2 (n - 52))"
    by (simp_all only: round_half_even_le round_half_even_ge)
  then show ?thesis by simp
qed


lemma float64_representable:
  assumes "\<bar>m\<bar> \<le> 2 ^ 53"
  shows "float64 (of_int m * pow2 j) = of_int m * pow2 j"
proof (cases "m = 0")
  case True
  then show ?thesis by (simp add: float64_zero)
next
  case False
  define x :: real where "x = of_int m * pow2 j"
  have ax: "\<bar>x\<bar> = of_int \<bar>m\<bar> * pow2 j"
    using pow2_pos [of j] by (simp add: x_def abs_mult)
  from False have "x \<noteq> 0"
    using pow2_pos [of j] by (simp add: x_def)
  from binade_exists [OF this] obtain n :: int where
    n: "pow2 n \<le> \<bar>x\<bar>" "\<bar>x\<bar> < pow2 (n + 1)" by blast
  define u :: real where "u = pow2 (n - 52)"
  have u: "0 < u" by (simp add: u_def pow2_pos)
  have m53: "real_of_int \<bar>m\<bar> \<le> 2 ^ 53"
  proof -
    from assms have "real_of_int \<bar>m\<bar> \<le> real_of_int (2 ^ 53)"
      by (simp only: of_int_le_iff)
    then show ?thesis by simp
  qed
  have j53: "2 ^ 53 * pow2 j = pow2 (j + 53)"
  proof -
    have "pow2 (j + 53) = pow2 (j + int 53)"
      by (rule arg_cong [where f = pow2]) simp
    then show ?thesis by (simp only: pow2_add pow2_nat mult.commute)
  qed
  have "\<exists>I::int. x / u = of_int I"
  proof (cases "n - 52 \<le> j")
    case True
    have "pow2 j = pow2 ((n - 52) + int (nat (j - (n - 52))))"
      using True by (intro arg_cong [where f = pow2]) simp
    also have "\<dots> = u * 2 ^ nat (j - (n - 52))"
      by (simp only: pow2_add pow2_nat u_def)
    finally have "x / u = of_int (m * 2 ^ nat (j - (n - 52)))"
      using u by (simp add: x_def)
    then show ?thesis by blast
  next
    case False
    have "of_int \<bar>m\<bar> * pow2 j \<le> 2 ^ 53 * pow2 j"
      using m53 pow2_pos [of j] by (intro mult_right_mono) simp_all
    with n(1) ax j53 have "pow2 n \<le> pow2 (j + 53)"
      by simp
    then have "n \<le> j + 53"
      by (simp only: pow2_le_iff)
    with False have nj: "n = j + 53"
      by simp
    with n(1) ax j53 have "2 ^ 53 * pow2 j \<le> of_int \<bar>m\<bar> * pow2 j"
      by simp
    then have "(2::real) ^ 53 \<le> of_int \<bar>m\<bar>"
      using pow2_pos [of j] by simp
    then have "real_of_int (2 ^ 53) \<le> real_of_int \<bar>m\<bar>"
      by simp
    then have "2 ^ 53 \<le> \<bar>m\<bar>"
      by (simp only: of_int_le_iff)
    with assms have m: "\<bar>m\<bar> = 2 ^ 53"
      by simp
    have "u = pow2 (j + int 1)"
      unfolding u_def nj by (rule arg_cong [where f = pow2]) simp
    then have "u = pow2 j * 2"
      by (simp only: pow2_add pow2_nat) simp
    then have "x / u = of_int m / 2"
      using pow2_pos [of j] by (simp add: x_def)
    moreover from m have "m = 2 ^ 53 \<or> m = - (2 ^ 53)"
      by linarith
    then have "2 dvd m"
      by auto
    then have "real_of_int (m div 2) = real_of_int m / 2"
      using real_of_int_div [of 2 m] by simp
    ultimately have "x / u = of_int (m div 2)"
      by (simp only:)
    then show ?thesis by blast
  qed
  then obtain I :: int where I: "x / u = of_int I" by blast
  have "float64 x = of_int (round_half_even (x / u)) * u"
    using float64_binade [OF n] by (simp add: u_def)
  also have "\<dots> = x / u * u"
    by (simp add: I round_half_even_of_int)
  also have "\<dots> = x"
    using u by simp
  finally show ?thesis by (simp add: x_def)
qed

lemma float64_of_int:
  assumes "\<bar>m\<bar> \<le> 2 ^ 53"
  shows "float64 (of_int m) = of_int m"
  using float64_representable [OF assms, of 0] by (simp add: pow2_def)

lemma float64_idem [simp]: "float64 (float64 x) = float64 x"
proof (cases "x = 0")
  case True
  then show ?thesis by (simp add: float64_zero)
next
  case False
  from binade_exists [OF this] obtain n :: int where
    n: "pow2 n \<le> \<bar>x\<bar>" "\<bar>x\<bar> < pow2 (n + 1)" by blast
  have "float64 x = of_int (round_half_even (x / pow2 (n - 52))) * pow2 (n - 52)"
    by (rule float64_binade [OF n])
  with float64_representable [OF float64_mantissa [OF n], of "n - 52"]
  show ?thesis by simp
qed

lemma float64_nonneg:
  assumes "0 \<le> x"
  shows "0 \<le> float64 x"
proof -
  have "\<bar>x\<bar> / 2 ^ 53 \<le> x"
    using assms by (simp add: field_simps)
  with float64_error [of x] show ?thesis
    by linarith
qed

lemma float64_below_double:
  assumes "0 \<le> z" and "z \<le> d" and "float64 d = d"
  shows "float64 z \<le> d"
proof (cases "z = 0")
  case True
  with assms show ?thesis by (simp add: float64_zero)
next
  case False
  with assms have zpos: "0 < z" and dpos: "0 < d" by simp_all
  from binade_exists [OF False] zpos obtain n :: int where
    n: "pow2 n \<le> z" "z < pow2 (n + 1)" by auto
  define u :: real where "u = pow2 (n - 52)"
  have u: "0 < u" by (simp add: u_def pow2_pos)
  have fz: "float64 z = of_int (round_half_even (z / u)) * u"
    using float64_binade [of n z] n zpos by (simp add: u_def)
  show ?thesis
  proof (cases "d < pow2 (n + 1)")
    case True
    with n assms(2) dpos have "pow2 n \<le> \<bar>d\<bar>" and "\<bar>d\<bar> < pow2 (n + 1)"
      by simp_all
    from float64_binade [OF this] assms(3)
    have d: "d = of_int (round_half_even (d / u)) * u"
      by (simp add: u_def)
    then have "d / u = of_int (round_half_even (d / u))"
      using u by (simp add: field_simps)
    moreover have "z / u \<le> d / u"
      using assms(2) u by (simp add: divide_right_mono)
    ultimately have "round_half_even (z / u) \<le> round_half_even (d / u)"
      using round_half_even_le [of "z / u" "round_half_even (d / u)"] by simp
    then have "of_int (round_half_even (z / u)) * u \<le> of_int (round_half_even (d / u)) * u"
      using u by (intro mult_right_mono) simp_all
    with fz d show ?thesis by simp
  next
    case False
    from float64_mantissa [of n z] n zpos
    have "round_half_even (z / u) \<le> 2 ^ 53"
      by (simp add: u_def)
    then have "real_of_int (round_half_even (z / u)) \<le> real_of_int (2 ^ 53)"
      by (simp only: of_int_le_iff)
    then have "of_int (round_half_even (z / u)) * u \<le> of_int (2 ^ 53) * u"
      using u by (intro mult_right_mono) simp_all
    also have "\<dots> = pow2 (n + 1)"
      using pow2_53 [of n] by (simp add: u_def mult.commute)
    finally show ?thesis using fz False by simp
  qed
qed

lemma float64_numeral:
  "numeral w \<le> (2::int) ^ 53 \<Longrightarrow> float64 (numeral w) = numeral w"
  "numeral w \<le> (2::int) ^ 53 \<Longrightarrow> float64 (- numeral w) = - numeral w"
  using float64_of_int [of "numeral w"] float64_of_int [of "- numeral w"] by simp_all

lemma float64_one: "float64 1 = 1"
  using float64_of_int [of 1] by simp

lemma float64_large:
  assumes "2 ^ (52 + k) \<le> \<bar>x\<bar>" and "\<bar>x\<bar> < 2 ^ (53 + k)"
  shows "float64 x = of_int (round_half_even (x / 2 ^ k)) * 2 ^ k"
proof -
  have "pow2 (int (52 + k)) = 2 ^ (52 + k)"
    and "pow2 (int (52 + k) + 1) = 2 ^ (53 + k)"
    and "pow2 (int (52 + k) - 52) = 2 ^ k"
    by (simp_all add: pow2_def nat_add_distrib)
  with float64_binade [of "int (52 + k)" x] assms show ?thesis
    by simp
qed

section \<open>Floor division\<close>

lemma fmod_nonneg:
  assumes "0 \<le> a" and "0 < b"
  shows "fmod a b = a - b * of_int \<lfloor>a / b\<rfloor>" and "0 \<le> fmod a b" and "fmod a b < b"
proof -
  have q: "0 \<le> a / b" using assms by simp
  then show 1: "fmod a b = a - b * of_int \<lfloor>a / b\<rfloor>"
    by (simp add: fmod_def)
  have "of_int \<lfloor>a / b\<rfloor> \<le> a / b" by (rule of_int_floor_le)
  then have "of_int \<lfloor>a / b\<rfloor> * b \<le> a"
    using assms(2) by (simp only: pos_le_divide_eq)
  then show "0 \<le> fmod a b"
    by (simp add: 1 mult.commute)
  have "a / b < of_int \<lfloor>a / b\<rfloor> + 1" by linarith
  then have "a < (of_int \<lfloor>a / b\<rfloor> + 1) * b"
    using assms(2) by (simp only: pos_divide_less_eq)
  then show "fmod a b < b"
    by (simp add: 1 algebra_simps)
qed

lemma floor_divide_exact:
  assumes "b \<noteq> 0"
  shows "floor_divide exact a b = of_int \<lfloor>a / b\<rfloor>"
proof -
  define y where "y = a / b"
  define t :: int where "t = (if 0 \<le> y then \<lfloor>y\<rfloor> else \<lceil>y\<rceil>)"
  have m: "fmod a b = b * (y - of_int t)"
    using assms by (simp add: fmod_def y_def t_def algebra_simps)
  have d: "(a - fmod a b) / b = of_int t"
    using assms by (simp add: m y_def field_simps)
  have adj: "(fmod a b \<noteq> 0 \<and> (b < 0) \<noteq> (fmod a b < 0)) \<longleftrightarrow> y < of_int t"
  proof (cases "0 \<le> y")
    case True
    then have f: "0 \<le> y - of_int t" "\<not> y < of_int t"
      using of_int_floor_le [of y] by (simp_all add: t_def not_less)
    then have "b < 0 \<Longrightarrow> b * (y - of_int t) \<le> 0" and "0 < b \<Longrightarrow> 0 \<le> b * (y - of_int t)"
      by (simp_all add: mult_nonpos_nonneg)
    with f(2) assms show ?thesis
      unfolding m by (cases "b < 0") (auto simp: not_less)
  next
    case False
    then have f: "y - of_int t \<le> 0"
      by (simp add: t_def)
    show ?thesis
    proof (cases "y = of_int t")
      case True
      then show ?thesis by (simp add: m)
    next
      case neq: False
      with f have lt: "y - of_int t < 0" by simp
      then have "b < 0 \<Longrightarrow> 0 < b * (y - of_int t)" and "0 < b \<Longrightarrow> b * (y - of_int t) < 0"
        by (simp_all add: mult_neg_neg mult_pos_neg)
      with lt assms show ?thesis
        unfolding m by (cases "b < 0") auto
    qed
  qed
  have fl: "\<lfloor>y\<rfloor> = (if y < of_int t then t - 1 else t)"
    unfolding t_def by (auto simp: floor_eq_iff ceiling_altdef split: if_splits) linarith+
  show ?thesis
    unfolding floor_divide_def Let_def exact_def d adj
    by (simp add: fl y_def [symmetric])
qed

lemma ulp53_mono:
  fixes z B :: real
  assumes "z \<le> B"
  shows "z / 2 ^ 53 \<le> B / 2 ^ 53"
  using assms by (rule divide_right_mono) simp

lemma float64_lower:
  assumes "0 \<le> x"
  shows "x - x / 2 ^ 53 \<le> float64 x" and "float64 x \<le> x + x / 2 ^ 53"
proof -
  from assms have "\<bar>x\<bar> = x" by simp
  with float64_error [of x] have "\<bar>float64 x - x\<bar> \<le> x / 2 ^ 53"
    by (simp only:)
  then show "x - x / 2 ^ 53 \<le> float64 x" and "float64 x \<le> x + x / 2 ^ 53"
    by linarith+
qed

lemma floor_divide_pos:
  assumes "0 < a" and "0 < b"
  defines "D \<equiv> float64 (float64 (b * of_int \<lfloor>a / b\<rfloor>) / b)"
  shows "floor_divide float64 a b =
           (if D \<noteq> 0 then
              if 1 / 2 < float64 (D - of_int \<lfloor>D\<rfloor>) then float64 (of_int \<lfloor>D\<rfloor> + 1)
              else of_int \<lfloor>D\<rfloor>
            else 0)"
proof -
  from assms(1) have a: "0 \<le> a" by simp
  have "a - fmod a b = b * of_int \<lfloor>a / b\<rfloor>"
    by (simp add: fmod_nonneg(1) [OF a assms(2)])
  moreover have "\<not> (fmod a b \<noteq> 0 \<and> (b < 0) \<noteq> (fmod a b < 0))"
    using fmod_nonneg(2) [OF a assms(2)] assms(2) by simp
  ultimately show ?thesis
    unfolding floor_divide_def Let_def D_def by (simp only: if_False)
qed

lemma quotient_estimate:
  assumes "0 < b" and "0 \<le> K"
  defines "U \<equiv> float64 (b * K) / b"
  shows "K - K / 2 ^ 53 \<le> U" and "U \<le> K + K / 2 ^ 53"
proof -
  have "0 \<le> b * K" using assms by simp
  note f = float64_lower [OF this]
  have b: "0 \<le> b" using assms(1) by simp
  have "(b * K - b * K / 2 ^ 53) / b \<le> U"
    unfolding U_def by (rule divide_right_mono [OF f(1) b])
  moreover have "U \<le> (b * K + b * K / 2 ^ 53) / b"
    unfolding U_def by (rule divide_right_mono [OF f(2) b])
  moreover have "(b * K - b * K / 2 ^ 53) / b = K - K / 2 ^ 53"
    and "(b * K + b * K / 2 ^ 53) / b = K + K / 2 ^ 53"
    using assms(1) by (simp_all add: field_simps)
  ultimately show "K - K / 2 ^ 53 \<le> U" and "U \<le> K + K / 2 ^ 53"
    by simp_all
qed

lemma floor_divide_float64_nonneg:
  assumes "0 < a" and "0 < b"
  shows "0 \<le> floor_divide float64 a b"
proof -
  define D where "D = float64 (float64 (b * of_int \<lfloor>a / b\<rfloor>) / b)"
  have "0 \<le> a / b" using assms by simp
  then have "0 \<le> b * real_of_int \<lfloor>a / b\<rfloor>"
    using assms(2) by simp
  then have "0 \<le> float64 (b * real_of_int \<lfloor>a / b\<rfloor>) / b"
    using assms(2) by (simp add: float64_nonneg)
  then have D: "0 \<le> D"
    unfolding D_def by (rule float64_nonneg)
  then have "0 \<le> real_of_int \<lfloor>D\<rfloor>"
    by simp
  moreover from this have "0 \<le> float64 (real_of_int \<lfloor>D\<rfloor> + 1)"
    by (intro float64_nonneg) simp
  ultimately show ?thesis
    unfolding floor_divide_pos [OF assms] D_def [symmetric] by simp
qed

lemma floor_divide_float64_floor:
  assumes "0 < a" and "0 < b" and "\<lfloor>a / b\<rfloor> \<le> 2 ^ 50"
  shows "floor_divide float64 a b = of_int \<lfloor>a / b\<rfloor>"
proof -
  define k where "k = \<lfloor>a / b\<rfloor>"
  define K where "K = real_of_int k"
  define U where "U = float64 (b * K) / b"
  define D where "D = float64 U"
  have k0: "0 \<le> k" using assms by (simp add: k_def)
  then have K0: "0 \<le> K" by (simp add: K_def)
  have "real_of_int k \<le> real_of_int (2 ^ 50)"
    using assms(3) unfolding k_def by (simp only: of_int_le_iff)
  then have K50: "K \<le> 2 ^ 50" by (simp add: K_def)
  have fd: "floor_divide float64 a b =
           (if D \<noteq> 0 then
              if 1 / 2 < float64 (D - of_int \<lfloor>D\<rfloor>) then float64 (of_int \<lfloor>D\<rfloor> + 1)
              else of_int \<lfloor>D\<rfloor>
            else 0)"
    using floor_divide_pos [OF assms(1,2)] by (simp add: D_def U_def K_def k_def)
  show ?thesis
  proof (cases "k = 0")
    case True
    then have "D = 0" by (simp add: D_def U_def K_def float64_zero)
    with True show ?thesis by (simp add: fd k_def)
  next
    case False
    with k0 have K1: "1 \<le> K" by (simp add: K_def)
    from quotient_estimate [OF assms(2) K0]
    have U: "K - K / 2 ^ 53 \<le> U" "U \<le> K + K / 2 ^ 53"
      by (simp_all add: U_def)
    have "K / 2 ^ 53 \<le> 2 ^ 50 / 2 ^ 53"
      using K50 by (rule ulp53_mono)
    then have "K / 2 ^ 53 \<le> 1 / 8"
      by simp
    with U K1 have U0: "0 \<le> U" and U1: "K - 1 / 8 \<le> U" and U2: "U \<le> K + 1 / 8"
      by linarith+
    from U2 K50 have "U \<le> 2 ^ 50 + 1 / 8"
      by linarith
    then have "U / 2 ^ 53 \<le> (2 ^ 50 + 1 / 8) / 2 ^ 53"
      by (rule ulp53_mono)
    then have "U / 2 ^ 53 \<le> 1 / 4"
      by simp
    with float64_lower [OF U0] U1 U2 have D1: "K - 3 / 8 \<le> D" and D2: "D \<le> K + 3 / 8"
      unfolding D_def by linarith+
    with K1 have Dne: "D \<noteq> 0" by linarith
    show ?thesis
    proof (cases "K \<le> D")
      case True
      with D2 have fl: "\<lfloor>D\<rfloor> = k"
        unfolding floor_eq_iff K_def by linarith
      have z: "0 \<le> D - K" and "D - K \<le> 3 / 8"
        using True D2 by linarith+
      then have "(D - K) / 2 ^ 53 \<le> (3 / 8) / 2 ^ 53"
        by (intro ulp53_mono)
      then have "(D - K) / 2 ^ 53 \<le> 1 / 8"
        by simp
      with float64_lower(2) [OF z] \<open>D - K \<le> 3 / 8\<close> have "\<not> 1 / 2 < float64 (D - K)"
        by linarith
      with Dne fl show ?thesis
        by (simp add: fd K_def k_def)
    next
      case False
      with D1 have fl: "\<lfloor>D\<rfloor> = k - 1"
        unfolding floor_eq_iff K_def by simp
      have z: "0 \<le> D - (K - 1)" and "5 / 8 \<le> D - (K - 1)" and "D - (K - 1) \<le> 1"
        using False D1 by linarith+
      then have "(D - (K - 1)) / 2 ^ 53 \<le> 1 / 2 ^ 53"
        by (intro ulp53_mono)
      then have "(D - (K - 1)) / 2 ^ 53 \<le> 1 / 16"
        by simp
      with float64_lower(1) [OF z] \<open>5 / 8 \<le> D - (K - 1)\<close> have "1 / 2 < float64 (D - (K - 1))"
        by linarith
      moreover have "float64 (real_of_int k) = real_of_int k"
        using k0 assms(3) by (intro float64_of_int) (simp add: k_def)
      ultimately show ?thesis
        using Dne fl by (simp add: fd K_def k_def)
    qed
  qed
qed

lemma lower_mono:
  fixes A x :: real
  assumes "A \<le> x"
  shows "A - A / 2 ^ 53 \<le> x - x / 2 ^ 53"
proof -
  have "(x - A) / 2 ^ 53 \<le> x - A"
    using assms by (simp add: field_simps)
  then show ?thesis
    by (simp add: diff_divide_distrib)
qed

lemma float64_lower_bound:
  assumes "0 \<le> A" and "A \<le> x"
  shows "A - A / 2 ^ 53 \<le> float64 x"
proof -
  from assms have "0 \<le> x" by simp
  from float64_lower(1) [OF this] lower_mono [OF assms(2)] show ?thesis
    by linarith
qed

lemma floor_divide_float64_bound:
  assumes "0 < a" and "0 < b" and "floor_divide float64 a b \<le> 2 ^ 50"
  shows "\<lfloor>a / b\<rfloor> \<le> 2 ^ 50"
proof (rule ccontr)
  assume "\<not> \<lfloor>a / b\<rfloor> \<le> 2 ^ 50"
  then have k: "2 ^ 50 + 1 \<le> \<lfloor>a / b\<rfloor>" by simp
  define K where "K = real_of_int \<lfloor>a / b\<rfloor>"
  define U where "U = float64 (b * K) / b"
  define D where "D = float64 U"
  from k have "real_of_int (2 ^ 50 + 1) \<le> K"
    unfolding K_def by (simp only: of_int_le_iff)
  then have K: "2 ^ 50 + 1 \<le> K" by simp
  then have K0: "0 \<le> K" by simp
  have fd: "floor_divide float64 a b =
           (if D \<noteq> 0 then
              if 1 / 2 < float64 (D - of_int \<lfloor>D\<rfloor>) then float64 (of_int \<lfloor>D\<rfloor> + 1)
              else of_int \<lfloor>D\<rfloor>
            else 0)"
    using floor_divide_pos [OF assms(1,2)] by (simp add: D_def U_def K_def)
  from quotient_estimate(1) [OF assms(2) K0] lower_mono [OF K]
  have "2 ^ 50 + 1 - (2 ^ 50 + 1) / 2 ^ 53 \<le> U"
    unfolding U_def by linarith
  then have U: "2 ^ 50 + 3 / 4 \<le> U"
    by simp
  have "2 ^ 50 + 3 / 4 - (2 ^ 50 + 3 / 4) / 2 ^ 53 \<le> D"
    unfolding D_def by (rule float64_lower_bound [OF _ U]) simp
  then have D: "2 ^ 50 + 9 / 16 \<le> D"
    by simp
  then have Dne: "D \<noteq> 0" by simp
  from D have fl: "2 ^ 50 \<le> \<lfloor>D\<rfloor>"
    by (simp add: le_floor_iff)
  show False
  proof (cases "1 / 2 < float64 (D - of_int \<lfloor>D\<rfloor>)")
    case True
    from fl have "real_of_int (2 ^ 50) \<le> real_of_int \<lfloor>D\<rfloor>"
      by (simp only: of_int_le_iff)
    then have "2 ^ 50 + 1 \<le> real_of_int \<lfloor>D\<rfloor> + 1"
      by simp
    then have "2 ^ 50 + 1 - (2 ^ 50 + 1) / 2 ^ 53 \<le> float64 (real_of_int \<lfloor>D\<rfloor> + 1)"
      by (intro float64_lower_bound) simp_all
    then have "2 ^ 50 < float64 (real_of_int \<lfloor>D\<rfloor> + 1)"
      by simp
    with assms(3) Dne True show False
      by (simp add: fd)
  next
    case False
    with assms(3) Dne have "real_of_int \<lfloor>D\<rfloor> \<le> 2 ^ 50"
      by (simp add: fd)
    then have "real_of_int \<lfloor>D\<rfloor> \<le> real_of_int (2 ^ 50)"
      by simp
    then have "\<lfloor>D\<rfloor> \<le> 2 ^ 50"
      by (simp only: of_int_le_iff)
    with fl have "\<lfloor>D\<rfloor> = 2 ^ 50"
      by (intro order_antisym)
    then have "real_of_int \<lfloor>D\<rfloor> = real_of_int (2 ^ 50)"
      by (simp only:)
    then have e: "real_of_int \<lfloor>D\<rfloor> = 2 ^ 50"
      by simp
    with D have "9 / 16 \<le> D - real_of_int \<lfloor>D\<rfloor>"
      by simp
    then have "9 / 16 - (9 / 16) / 2 ^ 53 \<le> float64 (D - real_of_int \<lfloor>D\<rfloor>)"
      by (intro float64_lower_bound) simp_all
    then have "1 / 2 < float64 (D - real_of_int \<lfloor>D\<rfloor>)"
      by simp
    with False show False by simp
  qed
qed

lemma floor_divide_float64_zero:
  assumes "0 < a" and "b \<noteq> 0" and "\<lfloor>a / b\<rfloor> = 0"
  shows "floor_divide float64 a b = 0"
proof -
  from assms(3) have "0 \<le> a / b"
    by (simp add: floor_eq_iff)
  with assms(1,2) have "0 < b"
    by (simp add: zero_le_divide_iff)
  from floor_divide_float64_floor [OF assms(1) this] assms(3) show ?thesis
    by simp
qed

section \<open>The signal evaluator\<close>

lemma nan_gt_iff: "nan_gt x y \<longleftrightarrow> (\<exists>a b. x = Some a \<and> y = Some b \<and> a > b)"
  by (cases x; cases y) auto

lemma nan_lt_iff: "nan_lt x y \<longleftrightarrow> (\<exists>a b. x = Some a \<and> y = Some b \<and> a < b)"
  by (cases x; cases y) auto

text \<open>
  C5. At every bar whose plus-DI \<open>p\<close>, minus-DI \<open>m\<close>, MACD \<open>a\<close> and MACD signal \<open>g\<close> are
  all defined, the buy condition is \<open>p > m \<and> a > g\<close> and the sell condition is
  \<open>m > p \<and> a < g\<close>; at every bar where one of the four is undefined, both are false.
\<close>

theorem evaluate_signals_conditions:
  assumes "i < length data"
  shows "(PLUS_DI (data ! i) = Some p \<and> MINUS_DI (data ! i) = Some m \<and>
          MACD (data ! i) = Some a \<and> MACDSignal (data ! i) = Some g \<longrightarrow>
            Buy_Condition (evaluate_signals data ! i) = (p > m \<and> a > g) \<and>
            Sell_Condition (evaluate_signals data ! i) = (m > p \<and> a < g)) \<and>
         (PLUS_DI (data ! i) = None \<or> MINUS_DI (data ! i) = None \<or>
          MACD (data ! i) = None \<or> MACDSignal (data ! i) = None \<longrightarrow>
            \<not> Buy_Condition (evaluate_signals data ! i) \<and>
            \<not> Sell_Condition (evaluate_signals data ! i))"
  using assms by (auto simp: evaluate_signals_def nan_gt_iff nan_lt_iff)

theorem evaluate_signals_conditions_witness:
  "Buy_Condition (evaluate_signals warm_up ! 3) \<and>
   \<not> Sell_Condition (evaluate_signals warm_up ! 3) \<and>
   \<not> Buy_Condition (evaluate_signals warm_up ! 2) \<and>
   \<not> Sell_Condition (evaluate_signals warm_up ! 2)"
  using evaluate_signals_conditions [of 3 warm_up 30 20 2 1]
    evaluate_signals_conditions [of 2 warm_up]
  by (simp add: warm_up_def bar_def)

text \<open>
  C9. At every bar at most one of the buy condition and the sell condition is true,
  whether the indicators of the bar are defined or not.
\<close>

theorem conditions_exclusive:
  assumes "i < length data"
  shows "\<not> (Buy_Condition (evaluate_signals data ! i) \<and>
            Sell_Condition (evaluate_signals data ! i))"
  using assms by (auto simp: evaluate_signals_def nan_gt_iff nan_lt_iff)

theorem conditions_exclusive_witness:
  "\<not> (Buy_Condition (evaluate_signals warm_up ! 3) \<and>
      Sell_Condition (evaluate_signals warm_up ! 3))"
  using conditions_exclusive [of 3 warm_up]
  by (simp add: warm_up_def)

section \<open>One bar of the ledger\<close>

lemma float64_order_values:
  "float64 119999999999999999 = 120000000000000000"
  "float64 (120000000000000000 / 11) = 10909090909090910"
  "float64 120000000000000010 = 120000000000000016"
  "float64 120000000000000000 = 120000000000000000"
  by (subst float64_large [of 4], simp, simp, simp add: round_half_even_def,
      subst float64_large [of 1], simp, simp, simp add: round_half_even_def,
      subst float64_large [of 4], simp, simp, simp add: round_half_even_def,
      subst float64_large [of 4], simp, simp, simp add: round_half_even_def)

lemma floor_divide_order: "floor_divide float64 120000000000000000 11 = 10909090909090910"
  by (simp add: floor_divide_def fmod_def float64_order_values float64_zero)

text \<open>
  C7, as the specification states it, fails in the arithmetic of the program. With cash
  \<open>1.2e17\<close> and a close of 11 the floor of the quotient is 10909090909090909, with a
  remainder of 1; the floor division of the doubles returns 10909090909090910, one share
  more than the cash pays for, and the cash after the buy is -16.
\<close>

theorem buy_trigger_counterexample:
  "loop_body float64 0 (penny_bar ! 0) (initial_state 120000000000000000) =
     Inr ((penny_bar ! 0)\<lparr>Buy_Signal := 1, Portfolio_Value := 120000000000000000\<rparr>,
          \<lparr>cash = - 16, stock_quantity = 10909090909090910,
           transactions =
             [\<lparr>tx_Date = 0, tx_Action = Buy, tx_Price = 11, tx_Quantity = 10909090909090910,
               tx_Cash = - 16, tx_Portfolio_Value = 120000000000000000\<rparr>],
           last_action = Some Buy, total_trades = 0, successful_trades = 0,
           last_buy_price = 11\<rparr>) \<and>
   \<lfloor>120000000000000000 / 11 :: real\<rfloor> = 10909090909090909 \<and>
   (120000000000000000 :: real) - 10909090909090909 * 11 = 1"
  by (simp add: penny_bar_def evaluate_signals_def rising_def bar_def initial_state_def
        loop_body_def floor_divide_order float64_order_values float64_numeral)

text \<open>
  C7, amended. On a buy trigger (buy condition true, cash \<open>C\<close> positive, last action not
  a buy) at a bar closing at a price \<open>P\<close> other than zero, with \<open>C\<close> and \<open>C / P\<close> inside
  the range of the doubles, the quantity becomes the floor division \<open>C // P\<close> of the
  doubles and the cash \<open>C - quantity * P\<close> in double arithmetic, each operation rounded to
  the nearest double; the line \<open>{Buy, P, quantity, cash, cash + quantity * P}\<close> is
  appended to the journal, and the last buy price is \<open>P\<close> and the last action a buy. The
  quantity is \<open>floor (C / P)\<close> whenever \<open>C\<close> is a double, \<open>P\<close> is positive and
  \<open>floor (C / P)\<close> is at most \<open>2 ^ 50\<close>. In exact arithmetic the quantity is
  \<open>floor (C / P)\<close> and the cash \<open>C - quantity * P\<close> always.
\<close>

theorem buy_trigger:
  fixes r :: row and s :: sim_state
  defines "q \<equiv> floor_divide float64 (float64 (cash s)) (Close r)"
  defines "c \<equiv> float64 (float64 (cash s) - float64 (q * Close r))"
  defines "v \<equiv> float64 (c + float64 (q * Close r))"
  defines "q' \<equiv> real_of_int \<lfloor>cash s / Close r\<rfloor>"
  defines "c' \<equiv> cash s - q' * Close r"
  assumes "Buy_Condition r" and "0 < cash s" and "last_action s \<noteq> Some Buy"
    and "Close r \<noteq> 0"
  shows "(cash s \<le> 2 ^ 1000 \<and> \<bar>cash s / Close r\<bar> \<le> 2 ^ 1000 \<longrightarrow>
          loop_body float64 i r s =
           Inr (r\<lparr>Buy_Signal := 1, Portfolio_Value := v\<rparr>,
                s\<lparr>cash := c,
                  stock_quantity := q,
                  transactions := transactions s @
                    [\<lparr>tx_Date = i, tx_Action = Buy, tx_Price = Close r, tx_Quantity = q,
                      tx_Cash = c, tx_Portfolio_Value = v\<rparr>],
                  last_action := Some Buy,
                  last_buy_price := Close r\<rparr>)) \<and>
         (0 < Close r \<and> float64 (cash s) = cash s \<and> \<lfloor>cash s / Close r\<rfloor> \<le> 2 ^ 50 \<longrightarrow>
            q = q') \<and>
         loop_body exact i r s =
           Inr (r\<lparr>Buy_Signal := 1, Portfolio_Value := c' + q' * Close r\<rparr>,
                s\<lparr>cash := c',
                  stock_quantity := q',
                  transactions := transactions s @
                    [\<lparr>tx_Date = i, tx_Action = Buy, tx_Price = Close r, tx_Quantity = q',
                      tx_Cash = c', tx_Portfolio_Value = c' + q' * Close r\<rparr>],
                  last_action := Some Buy,
                  last_buy_price := Close r\<rparr>)"
proof (intro conjI)
  show "cash s \<le> 2 ^ 1000 \<and> \<bar>cash s / Close r\<bar> \<le> 2 ^ 1000 \<longrightarrow>
        loop_body float64 i r s =
           Inr (r\<lparr>Buy_Signal := 1, Portfolio_Value := v\<rparr>,
                s\<lparr>cash := c,
                  stock_quantity := q,
                  transactions := transactions s @
                    [\<lparr>tx_Date = i, tx_Action = Buy, tx_Price = Close r, tx_Quantity = q,
                      tx_Cash = c, tx_Portfolio_Value = v\<rparr>],
                  last_action := Some Buy,
                  last_buy_price := Close r\<rparr>)"
    using assms(6-) by (simp add: loop_body_def Let_def q_def c_def v_def)
  show "0 < Close r \<and> float64 (cash s) = cash s \<and> \<lfloor>cash s / Close r\<rfloor> \<le> 2 ^ 50 \<longrightarrow>
        q = q'"
  proof
    assume a: "0 < Close r \<and> float64 (cash s) = cash s \<and> \<lfloor>cash s / Close r\<rfloor> \<le> 2 ^ 50"
    then have "floor_divide float64 (cash s) (Close r) = of_int \<lfloor>cash s / Close r\<rfloor>"
      using assms(7) by (intro floor_divide_float64_floor) simp_all
    with a show "q = q'"
      by (simp add: q_def q'_def)
  qed
  show "loop_body exact i r s =
           Inr (r\<lparr>Buy_Signal := 1, Portfolio_Value := c' + q' * Close r\<rparr>,
                s\<lparr>cash := c',
                  stock_quantity := q',
                  transactions := transactions s @
                    [\<lparr>tx_Date = i, tx_Action = Buy, tx_Price = Close r, tx_Quantity = q',
                      tx_Cash = c', tx_Portfolio_Value = c' + q' * Close r\<rparr>],
                  last_action := Some Buy,
                  last_buy_price := Close r\<rparr>)"
    using assms(6-)
    by (simp add: loop_body_def Let_def q'_def c'_def exact_def floor_divide_exact)
qed

text \<open>Price 100 and cash 1000 give quantity 10, cash 0 and a portfolio value of 1000.\<close>

theorem buy_trigger_witness:
  "loop_body float64 0 (round_trip ! 0) (initial_state 1000) =
     Inr ((round_trip ! 0)\<lparr>Buy_Signal := 1, Portfolio_Value := 1000\<rparr>,
          \<lparr>cash = 0, stock_quantity = 10,
           transactions =
             [\<lparr>tx_Date = 0, tx_Action = Buy, tx_Price = 100, tx_Quantity = 10,
               tx_Cash = 0, tx_Portfolio_Value = 1000\<rparr>],
           last_action = Some Buy, total_trades = 0, successful_trades = 0,
           last_buy_price = 100\<rparr>)"
  using buy_trigger [of "round_trip ! 0" "initial_state 1000" 0]
  by (simp add: round_trip_def evaluate_signals_def rising_def bar_def initial_state_def
        float64_numeral float64_zero)

text \<open>
  C8. On a sell trigger (sell condition true, quantity \<open>Q\<close> positive, last action not a
  sell) at a bar of the evaluator closing at \<open>P\<close>, the cash grows by \<open>Q * P\<close>, the quantity
  becomes 0, the line \<open>{Sell, P, 0, cash, cash}\<close> is appended to the journal, the last
  action is a sell, the number of trades grows by one, and the number of successful trades
  grows by one exactly when \<open>P\<close> is above the last buy price. This holds in exact
  arithmetic, and in double arithmetic with the product and the sum rounded, for a cash
  and a product inside the range of the doubles.
\<close>

theorem sell_trigger:
  fixes r :: row and s :: sim_state
  defines "c \<equiv> float64 (float64 (cash s) + float64 (stock_quantity s * Close r))"
  assumes "r \<in> set (evaluate_signals data)"
    and "Sell_Condition r" and "0 < stock_quantity s" and "last_action s \<noteq> Some Sell"
  shows "loop_body exact i r s =
           Inr (r\<lparr>Sell_Signal := 1,
                  Portfolio_Value := cash s + stock_quantity s * Close r\<rparr>,
                s\<lparr>cash := cash s + stock_quantity s * Close r,
                  stock_quantity := 0,
                  transactions := transactions s @
                    [\<lparr>tx_Date = i, tx_Action = Sell, tx_Price = Close r, tx_Quantity = 0,
                      tx_Cash = cash s + stock_quantity s * Close r,
                      tx_Portfolio_Value = cash s + stock_quantity s * Close r\<rparr>],
                  last_action := Some Sell,
                  total_trades := total_trades s + 1,
                  successful_trades :=
                    successful_trades s + (if Close r > last_buy_price s then 1 else 0)\<rparr>) \<and>
         (\<bar>cash s\<bar> \<le> 2 ^ 1000 \<and> \<bar>stock_quantity s * Close r\<bar> \<le> 2 ^ 1000 \<longrightarrow>
          loop_body float64 i r s =
           Inr (r\<lparr>Sell_Signal := 1, Portfolio_Value := c\<rparr>,
                s\<lparr>cash := c,
                  stock_quantity := 0,
                  transactions := transactions s @
                    [\<lparr>tx_Date = i, tx_Action = Sell, tx_Price = Close r, tx_Quantity = 0,
                      tx_Cash = c, tx_Portfolio_Value = c\<rparr>],
                  last_action := Some Sell,
                  total_trades := total_trades s + 1,
                  successful_trades :=
                    successful_trades s + (if Close r > last_buy_price s then 1 else 0)\<rparr>))"
proof -
  from assms(2,3) have "\<not> Buy_Condition r"
    by (auto simp: evaluate_signals_def nan_gt_iff nan_lt_iff)
  with assms(3-) show ?thesis
    by (simp add: loop_body_def Let_def exact_def c_def float64_zero float64_idem)
qed

text \<open>Selling the 10 shares bought at 100 for 110: cash 1100, one trade, one of them successful.\<close>

theorem sell_trigger_witness:
  "loop_body exact 1 (round_trip ! 1) holding =
     Inr ((round_trip ! 1)\<lparr>Sell_Signal := 1, Portfolio_Value := 1100\<rparr>,
          \<lparr>cash = 1100, stock_quantity = 0,
           transactions =
             [\<lparr>tx_Date = 0, tx_Action = Buy, tx_Price = 100, tx_Quantity = 10,
               tx_Cash = 0, tx_Portfolio_Value = 1000\<rparr>,
              \<lparr>tx_Date = 1, tx_Action = Sell, tx_Price = 110, tx_Quantity = 0,
               tx_Cash = 1100, tx_Portfolio_Value = 1100\<rparr>],
           last_action = Some Sell, total_trades = 1, successful_trades = 1,
           last_buy_price = 100\<rparr>) \<and>
   loop_body float64 1 (round_trip ! 1) holding =
     Inr ((round_trip ! 1)\<lparr>Sell_Signal := 1, Portfolio_Value := 1100\<rparr>,
          \<lparr>cash = 1100, stock_quantity = 0,
           transactions =
             [\<lparr>tx_Date = 0, tx_Action = Buy, tx_Price = 100, tx_Quantity = 10,
               tx_Cash = 0, tx_Portfolio_Value = 1000\<rparr>,
              \<lparr>tx_Date = 1, tx_Action = Sell, tx_Price = 110, tx_Quantity = 0,
               tx_Cash = 1100, tx_Portfolio_Value = 1100\<rparr>],
           last_action = Some Sell, total_trades = 1, successful_trades = 1,
           last_buy_price = 100\<rparr>)"
  using sell_trigger [of "round_trip ! 1" "[rising 100, falling 110]" holding 1]
  by (simp add: round_trip_def evaluate_signals_def rising_def falling_def bar_def holding_def
        float64_numeral)

text \<open>
  C1, as the specification states it, fails. With cash 50 and a close of 100 the buy
  condition fires, \<open>floor (50 / 100) = 0\<close>, and the loop still appends a buy of 0 shares to
  the journal and moves the last action to a buy and the last buy price to 100, in exact
  and in double arithmetic alike.
\<close>

theorem no_affordable_shares_counterexample:
  "loop_body exact 0 (round_trip ! 0) (initial_state 50) =
     Inr ((round_trip ! 0)\<lparr>Buy_Signal := 1, Portfolio_Value := 50\<rparr>,
          \<lparr>cash = 50, stock_quantity = 0,
           transactions =
             [\<lparr>tx_Date = 0, tx_Action = Buy, tx_Price = 100, tx_Quantity = 0,
               tx_Cash = 50, tx_Portfolio_Value = 50\<rparr>],
           last_action = Some Buy, total_trades = 0, successful_trades = 0,
           last_buy_price = 100\<rparr>) \<and>
   run_simulation exact [round_trip ! 0] 50 =
     Inr \<lparr>rr_data = [(round_trip ! 0)\<lparr>Buy_Signal := 1, Portfolio_Value := 50\<rparr>],
          rr_transactions =
            [\<lparr>tx_Date = 0, tx_Action = Buy, tx_Price = 100, tx_Quantity = 0,
              tx_Cash = 50, tx_Portfolio_Value = 50\<rparr>],
          rr_total_trades = 0, rr_successful_trades = 0\<rparr> \<and>
   run_simulation float64 [round_trip ! 0] 50 =
     Inr \<lparr>rr_data = [(round_trip ! 0)\<lparr>Buy_Signal := 1, Portfolio_Value := 50\<rparr>],
          rr_transactions =
            [\<lparr>tx_Date = 0, tx_Action = Buy, tx_Price = 100, tx_Quantity = 0,
              tx_Cash = 50, tx_Portfolio_Value = 50\<rparr>],
          rr_total_trades = 0, rr_successful_trades = 0\<rparr>"
  by (simp add: run_simulation_def start_index_def loop_body_def exact_def floor_divide_exact
        floor_divide_float64_zero float64_numeral float64_zero
        round_trip_def evaluate_signals_def rising_def bar_def initial_state_def)

text \<open>
  C1, amended. When the buy condition is true, the cash is positive, the last action is
  not a buy and \<open>floor (cash / close) = 0\<close>, the loop records the buy all the same: the line
  \<open>{Buy, close, 0, cash, cash}\<close> is appended to the journal, the last action becomes a buy
  and the last buy price the close; the cash keeps its value and the quantity is 0. This
  holds in exact arithmetic, and in double arithmetic when the cash is a double.
\<close>

theorem zero_share_buy:
  assumes "Buy_Condition r" and "0 < cash s" and "last_action s \<noteq> Some Buy"
    and "Close r \<noteq> 0" and "\<lfloor>cash s / Close r\<rfloor> = 0"
  shows "loop_body exact i r s =
           Inr (r\<lparr>Buy_Signal := 1, Portfolio_Value := cash s\<rparr>,
                s\<lparr>stock_quantity := 0,
                  transactions := transactions s @
                    [\<lparr>tx_Date = i, tx_Action = Buy, tx_Price = Close r, tx_Quantity = 0,
                      tx_Cash = cash s, tx_Portfolio_Value = cash s\<rparr>],
                  last_action := Some Buy,
                  last_buy_price := Close r\<rparr>) \<and>
         (float64 (cash s) = cash s \<longrightarrow>
          loop_body float64 i r s =
           Inr (r\<lparr>Buy_Signal := 1, Portfolio_Value := cash s\<rparr>,
                s\<lparr>stock_quantity := 0,
                  transactions := transactions s @
                    [\<lparr>tx_Date = i, tx_Action = Buy, tx_Price = Close r, tx_Quantity = 0,
                      tx_Cash = cash s, tx_Portfolio_Value = cash s\<rparr>],
                  last_action := Some Buy,
                  last_buy_price := Close r\<rparr>))"
  using assms
  by (simp add: loop_body_def Let_def exact_def floor_divide_exact floor_divide_float64_zero
        float64_zero)

theorem zero_share_buy_witness:
  "loop_body exact 0 (evaluate_signals [rising 250] ! 0) (initial_state 100) =
     Inr ((evaluate_signals [rising 250] ! 0)\<lparr>Buy_Signal := 1, Portfolio_Value := 100\<rparr>,
          (initial_state 100)
            \<lparr>stock_quantity := 0,
             transactions :=
               [\<lparr>tx_Date = 0, tx_Action = Buy, tx_Price = 250, tx_Quantity = 0,
                 tx_Cash = 100, tx_Portfolio_Value = 100\<rparr>],
             last_action := Some Buy,
             last_buy_price := 250\<rparr>) \<and>
   loop_body float64 0 (evaluate_signals [rising 250] ! 0) (initial_state 100) =
     Inr ((evaluate_signals [rising 250] ! 0)\<lparr>Buy_Signal := 1, Portfolio_Value := 100\<rparr>,
          (initial_state 100)
            \<lparr>stock_quantity := 0,
             transactions :=
               [\<lparr>tx_Date = 0, tx_Action = Buy, tx_Price = 250, tx_Quantity = 0,
                 tx_Cash = 100, tx_Portfolio_Value = 100\<rparr>],
             last_action := Some Buy,
             last_buy_price := 250\<rparr>)"
  using zero_share_buy [of "evaluate_signals [rising 250] ! 0" "initial_state 100" 0]
  by (simp add: evaluate_signals_def rising_def bar_def initial_state_def float64_numeral)

section \<open>The start index\<close>

lemma first_valid_index_None:
  "first_valid_index xs = None \<longleftrightarrow> (\<forall>x \<in> set xs. x = None)"
  by (induction xs) (auto split: option.splits)

lemma first_valid_index_Some:
  "first_valid_index xs = Some n \<Longrightarrow>
     n < length xs \<and> xs ! n \<noteq> None \<and> (\<forall>j < n. xs ! j = None)"
proof (induction xs arbitrary: n)
  case Nil
  then show ?case by simp
next
  case (Cons x xs)
  show ?case
  proof (cases x)
    case None
    with Cons.prems obtain n' where n': "first_valid_index xs = Some n'" "n = Suc n'"
      by auto
    from Cons.IH [OF n'(1)] n'(2) None show ?thesis
      by (auto simp: less_Suc_eq_0_disj)
  next
    case (Some a)
    with Cons.prems show ?thesis by simp
  qed
qed

lemma start_index_evaluate_signals: "start_index (evaluate_signals data) = start_index data"
proof -
  have "map MINUS_DI (evaluate_signals data) = map MINUS_DI data"
    and "map PLUS_DI (evaluate_signals data) = map PLUS_DI data"
    by (simp_all add: evaluate_signals_def comp_def)
  then show ?thesis
    by (simp only: start_index_def)
qed

lemma loop_body_journal:
  assumes "loop_body rnd i r s = Inr (r', s')"
  shows "\<exists>ts. transactions s' = transactions s @ ts \<and> (\<forall>t \<in> set ts. tx_Date t = i)"
  using assms by (auto simp: loop_body_def Let_def split: if_splits)

lemma loop_journal:
  assumes "loop rnd i rs s = Inr (rs', s')"
  shows "length rs' = length rs \<and>
         (\<exists>ts. transactions s' = transactions s @ ts \<and>
            (\<forall>t \<in> set ts. i \<le> tx_Date t \<and> tx_Date t < i + length rs))"
  using assms
proof (induction rs arbitrary: i s rs')
  case Nil
  then show ?case by simp
next
  case (Cons r rs)
  from Cons.prems obtain r1 s1 rs1 where
    b: "loop_body rnd i r s = Inr (r1, s1)" and l: "loop rnd (Suc i) rs s1 = Inr (rs1, s')"
    and rs': "rs' = r1 # rs1"
    by (auto split: sum.splits prod.splits)
  from loop_body_journal [OF b] obtain ts1 where
    ts1: "transactions s1 = transactions s @ ts1" "\<forall>t \<in> set ts1. tx_Date t = i"
    by blast
  from Cons.IH [OF l] obtain ts2 where
    len: "length rs1 = length rs" and
    ts2: "transactions s' = transactions s1 @ ts2"
      "\<forall>t \<in> set ts2. Suc i \<le> tx_Date t \<and> tx_Date t < Suc i + length rs"
    by blast
  have "transactions s' = transactions s @ (ts1 @ ts2)"
    by (simp add: ts1 ts2)
  moreover have "\<forall>t \<in> set (ts1 @ ts2). i \<le> tx_Date t \<and> tx_Date t < i + length (r # rs)"
    using ts1(2) ts2(2) by auto
  ultimately have "\<exists>ts. transactions s' = transactions s @ ts \<and>
      (\<forall>t \<in> set ts. i \<le> tx_Date t \<and> tx_Date t < i + length (r # rs))"
    by (intro exI [of _ "ts1 @ ts2"] conjI)
  with len rs' show ?case
    by simp
qed

text \<open>
  C2, as the specification states it, fails. In \<open>warm_up\<close> both directional indicators
  are defined from position 2 on, and the run starts there, where MACD and its signal
  line are still undefined: it writes the portfolio value of bar 2 and leaves bars 0
  and 1 alone.
\<close>

theorem start_index_counterexample:
  "start_index (evaluate_signals warm_up) = Inr 2 \<and>
   MACD (evaluate_signals warm_up ! 2) = None \<and>
   MACDSignal (evaluate_signals warm_up ! 2) = None \<and>
   run_simulation float64 (evaluate_signals warm_up) 1000 =
     Inr \<lparr>rr_data =
            [evaluate_signals warm_up ! 0,
             evaluate_signals warm_up ! 1,
             (evaluate_signals warm_up ! 2)\<lparr>Portfolio_Value := 1000\<rparr>,
             (evaluate_signals warm_up ! 3)\<lparr>Buy_Signal := 1, Portfolio_Value := 1000\<rparr>],
          rr_transactions =
            [\<lparr>tx_Date = 3, tx_Action = Buy, tx_Price = 103, tx_Quantity = 9,
              tx_Cash = 73, tx_Portfolio_Value = 1000\<rparr>],
          rr_total_trades = 0, rr_successful_trades = 0\<rparr>"
  by (simp add: run_simulation_def start_index_def evaluate_signals_def warm_up_def bar_def
        initial_state_def loop_body_def floor_divide_def fmod_def float64_numeral float64_zero)

text \<open>
  C2, amended. The run starts at the later of the first positions at which minus-DI and
  plus-DI are defined; MACD and its signal line are not consulted. The start lies inside
  the frame, and before it no bar has both directional indicators defined. When each
  directional indicator, once defined, stays defined, both are defined at every bar from
  the start on. The run is the loop over the rows from the start on, numbered from the
  start: the rows before it are returned as they were, and every line of the journal is
  dated at the start or later.
\<close>

theorem start_index_directional:
  assumes "start_index data = Inr k"
  shows "(\<exists>m p. first_valid_index (map MINUS_DI data) = Some m \<and>
                first_valid_index (map PLUS_DI data) = Some p \<and> k = max m p) \<and>
         k < length data \<and>
         (\<forall>j < k. PLUS_DI (data ! j) = None \<or> MINUS_DI (data ! j) = None) \<and>
         ((\<forall>i j. i \<le> j \<and> j < length data \<and> PLUS_DI (data ! i) \<noteq> None
              \<longrightarrow> PLUS_DI (data ! j) \<noteq> None) \<and>
          (\<forall>i j. i \<le> j \<and> j < length data \<and> MINUS_DI (data ! i) \<noteq> None
              \<longrightarrow> MINUS_DI (data ! j) \<noteq> None) \<longrightarrow>
          (\<forall>j. k \<le> j \<and> j < length data \<longrightarrow>
              PLUS_DI (data ! j) \<noteq> None \<and> MINUS_DI (data ! j) \<noteq> None)) \<and>
         start_index (map (\<lambda>r. r\<lparr>MACD := f r, MACDSignal := g r\<rparr>) data) = Inr k \<and>
         run_simulation rnd data initial_cash =
           (case loop rnd k (drop k data) (initial_state initial_cash) of
              Inl e \<Rightarrow> Inl e
            | Inr (rs, s) \<Rightarrow>
                Inr \<lparr>rr_data = take k data @ rs,
                     rr_transactions = transactions s,
                     rr_total_trades = total_trades s,
                     rr_successful_trades = successful_trades s\<rparr>) \<and>
         (\<forall>res. run_simulation rnd data initial_cash = Inr res \<longrightarrow>
            length (rr_data res) = length data \<and>
            take k (rr_data res) = take k data \<and>
            (\<forall>t \<in> set (rr_transactions res). k \<le> tx_Date t \<and> tx_Date t < length data))"
proof -
  from assms obtain m p where
    m: "first_valid_index (map MINUS_DI data) = Some m" and
    p: "first_valid_index (map PLUS_DI data) = Some p" and k: "k = max m p"
    by (auto simp: start_index_def split: option.splits)
  from first_valid_index_Some [OF m]
  have m': "m < length data" "MINUS_DI (data ! m) \<noteq> None" "\<forall>j < m. MINUS_DI (data ! j) = None"
    by auto
  from first_valid_index_Some [OF p]
  have p': "p < length data" "PLUS_DI (data ! p) \<noteq> None" "\<forall>j < p. PLUS_DI (data ! j) = None"
    by auto
  have 1: "k < length data"
    using k m' p' by simp
  have 2: "\<forall>j < k. PLUS_DI (data ! j) = None \<or> MINUS_DI (data ! j) = None"
    using k m'(3) p'(3) by (auto simp: max_def split: if_splits)
  have 3: "PLUS_DI (data ! j) \<noteq> None \<and> MINUS_DI (data ! j) \<noteq> None"
    if "\<forall>i j. i \<le> j \<and> j < length data \<and> PLUS_DI (data ! i) \<noteq> None
              \<longrightarrow> PLUS_DI (data ! j) \<noteq> None"
      and "\<forall>i j. i \<le> j \<and> j < length data \<and> MINUS_DI (data ! i) \<noteq> None
              \<longrightarrow> MINUS_DI (data ! j) \<noteq> None"
      and "k \<le> j" and "j < length data" for j
  proof
    from that(3) k have "p \<le> j" by simp
    with that(1,4) p'(2) show "PLUS_DI (data ! j) \<noteq> None" by blast
    from that(3) k have "m \<le> j" by simp
    with that(2,4) m'(2) show "MINUS_DI (data ! j) \<noteq> None" by blast
  qed
  have "map MINUS_DI (map (\<lambda>r. r\<lparr>MACD := f r, MACDSignal := g r\<rparr>) data) = map MINUS_DI data"
    and "map PLUS_DI (map (\<lambda>r. r\<lparr>MACD := f r, MACDSignal := g r\<rparr>) data) = map PLUS_DI data"
    by (simp_all add: comp_def)
  with assms have 4: "start_index (map (\<lambda>r. r\<lparr>MACD := f r, MACDSignal := g r\<rparr>) data) = Inr k"
    by (simp only: start_index_def)
  have 5: "run_simulation rnd data initial_cash =
           (case loop rnd k (drop k data) (initial_state initial_cash) of
              Inl e \<Rightarrow> Inl e
            | Inr (rs, s) \<Rightarrow>
                Inr \<lparr>rr_data = take k data @ rs,
                     rr_transactions = transactions s,
                     rr_total_trades = total_trades s,
                     rr_successful_trades = successful_trades s\<rparr>)"
    using assms by (simp add: run_simulation_def)
  have 6: "length (rr_data res) = length data \<and>
            take k (rr_data res) = take k data \<and>
            (\<forall>t \<in> set (rr_transactions res). k \<le> tx_Date t \<and> tx_Date t < length data)"
    if "run_simulation rnd data initial_cash = Inr res" for res
  proof -
    from that 5 obtain rs s where
      l: "loop rnd k (drop k data) (initial_state initial_cash) = Inr (rs, s)"
      and res: "rr_data res = take k data @ rs" "rr_transactions res = transactions s"
      by (auto split: sum.splits prod.splits)
    from loop_journal [OF l] obtain ts where
      len: "length rs = length (drop k data)" and
      ts: "transactions s = transactions (initial_state initial_cash) @ ts"
        "\<forall>t \<in> set ts. k \<le> tx_Date t \<and> tx_Date t < k + length (drop k data)"
      by blast
    from ts 1 have "\<forall>t \<in> set (transactions s). k \<le> tx_Date t \<and> tx_Date t < length data"
      by (simp add: initial_state_def)
    with len 1 res show ?thesis
      by simp
  qed
  from m p k 1 2 3 4 5 6 show ?thesis by blast
qed

lemma warm_up_stays_defined:
  "(\<forall>i j. i \<le> j \<and> j < length warm_up \<and> PLUS_DI (warm_up ! i) \<noteq> None
      \<longrightarrow> PLUS_DI (warm_up ! j) \<noteq> None) \<and>
   (\<forall>i j. i \<le> j \<and> j < length warm_up \<and> MINUS_DI (warm_up ! i) \<noteq> None
      \<longrightarrow> MINUS_DI (warm_up ! j) \<noteq> None)"
  by (auto simp: warm_up_def bar_def nth_Cons' split: if_splits)

lemma run_simulation_warm_up:
  "run_simulation exact warm_up 1000 =
     Inr \<lparr>rr_data =
            [warm_up ! 0, warm_up ! 1, (warm_up ! 2)\<lparr>Portfolio_Value := 1000\<rparr>,
             (warm_up ! 3)\<lparr>Portfolio_Value := 1000\<rparr>],
          rr_transactions = [], rr_total_trades = 0, rr_successful_trades = 0\<rparr>"
  by (simp add: run_simulation_def start_index_def warm_up_def bar_def initial_state_def
        loop_body_def exact_def)

theorem start_index_directional_witness:
  "start_index warm_up = Inr 2 \<and>
   first_valid_index (map MINUS_DI warm_up) = Some 2 \<and>
   first_valid_index (map PLUS_DI warm_up) = Some 1 \<and>
   MINUS_DI (warm_up ! 1) = None \<and>
   PLUS_DI (warm_up ! 3) \<noteq> None \<and> MINUS_DI (warm_up ! 3) \<noteq> None \<and>
   start_index (map (\<lambda>r. r\<lparr>MACD := None, MACDSignal := None\<rparr>) warm_up) = Inr 2 \<and>
   run_simulation exact warm_up 1000 =
     (case loop exact 2 (drop 2 warm_up) (initial_state 1000) of
        Inl e \<Rightarrow> Inl e
      | Inr (rs, s) \<Rightarrow>
          Inr \<lparr>rr_data = take 2 warm_up @ rs,
               rr_transactions = transactions s,
               rr_total_trades = total_trades s,
               rr_successful_trades = successful_trades s\<rparr>) \<and>
   (\<exists>res. run_simulation exact warm_up 1000 = Inr res \<and>
      length (rr_data res) = 4 \<and> take 2 (rr_data res) = take 2 warm_up)"
proof -
  have k: "start_index warm_up = Inr 2"
    by (simp add: start_index_def warm_up_def bar_def)
  have len: "length warm_up = 4"
    by (simp add: warm_up_def)
  from start_index_directional [OF k, of "\<lambda>r. None" "\<lambda>r. None" exact 1000]
    warm_up_stays_defined k len run_simulation_warm_up
  show ?thesis
    by (simp add: start_index_def warm_up_def bar_def)
qed
section \<open>Runs\<close>

lemma loop_idle:
  assumes "\<forall>r \<in> set rs. \<not> Buy_Condition r \<and> \<not> Sell_Condition r"
  shows "\<exists>rs'. loop rnd i rs s = Inr (rs', s)"
  using assms
proof (induction rs arbitrary: i)
  case Nil
  then show ?case by simp
next
  case (Cons r rs)
  then have "loop_body rnd i r s =
      Inr (r\<lparr>Portfolio_Value := rnd (rnd (cash s) + rnd (stock_quantity s * Close r))\<rparr>, s)"
    by (simp add: loop_body_def)
  moreover from Cons obtain rs' where "loop rnd (Suc i) rs s = Inr (rs', s)"
    by auto
  ultimately show ?case by simp
qed

text \<open>
  C3, as the specification states it, fails. On a series shorter than the warm-up of the
  directional indicators the start index lookup raises and no result is returned.
\<close>

theorem insufficient_data_counterexample:
  "run_simulation float64 (evaluate_signals too_short) 1000 = Inl TypeError \<and>
   run_simulation exact (evaluate_signals too_short) 1000 = Inl TypeError"
  by (simp add: run_simulation_def start_index_def evaluate_signals_def too_short_def bar_def)

text \<open>
  C3, amended. On a series in which no bar has all four indicators defined, a run on the
  evaluated frame fails with a type error at the start index lookup when plus-DI or
  minus-DI is undefined at every bar; otherwise it returns an empty journal, no trade and
  no successful trade.
\<close>

theorem insufficient_data:
  assumes "\<forall>r \<in> set data. PLUS_DI r = None \<or> MINUS_DI r = None \<or>
                           MACD r = None \<or> MACDSignal r = None"
  shows "if (\<forall>r \<in> set data. PLUS_DI r = None) \<or> (\<forall>r \<in> set data. MINUS_DI r = None)
         then run_simulation rnd (evaluate_signals data) initial_cash = Inl TypeError
         else \<exists>res. run_simulation rnd (evaluate_signals data) initial_cash = Inr res \<and>
                rr_transactions res = [] \<and> rr_total_trades res = 0 \<and>
                rr_successful_trades res = 0"
proof (cases "(\<forall>r \<in> set data. PLUS_DI r = None) \<or> (\<forall>r \<in> set data. MINUS_DI r = None)")
  case True
  then have "first_valid_index (map PLUS_DI data) = None \<or>
             first_valid_index (map MINUS_DI data) = None"
    by (auto simp: first_valid_index_None)
  then have "start_index data = Inl TypeError"
    by (auto simp: start_index_def split: option.splits)
  with True show ?thesis
    by (simp add: run_simulation_def start_index_evaluate_signals)
next
  case False
  then have "first_valid_index (map PLUS_DI data) \<noteq> None \<and>
             first_valid_index (map MINUS_DI data) \<noteq> None"
    by (simp add: first_valid_index_None)
  then obtain k where k: "start_index data = Inr k"
    by (auto simp: start_index_def)
  have "\<forall>r \<in> set (evaluate_signals data). \<not> Buy_Condition r \<and> \<not> Sell_Condition r"
    using assms by (auto simp: evaluate_signals_def)
  then have "\<forall>r \<in> set (drop k (evaluate_signals data)).
      \<not> Buy_Condition r \<and> \<not> Sell_Condition r"
    by (meson in_set_dropD)
  from loop_idle [OF this] obtain rs' where
    "loop rnd k (drop k (evaluate_signals data)) (initial_state initial_cash) =
       Inr (rs', initial_state initial_cash)"
    by blast
  with k False show ?thesis
    by (simp add: run_simulation_def start_index_evaluate_signals initial_state_def)
qed

theorem insufficient_data_witness:
  "run_simulation float64 (evaluate_signals too_short) 1000 = Inl TypeError \<and>
   (\<exists>res. run_simulation float64 (evaluate_signals no_macd) 1000 = Inr res \<and>
      rr_transactions res = [] \<and> rr_total_trades res = 0 \<and> rr_successful_trades res = 0)"
  using insufficient_data [of too_short float64 1000] insufficient_data [of no_macd float64 1000]
  by (simp add: too_short_def no_macd_def bar_def)

lemma loop_body_ledger_f64:
  assumes "loop_body float64 i r s = Inr (r', s')" and "0 < Close r" and "ledger_f64 s"
    and "\<forall>t \<in> set (transactions s'). tx_Quantity t \<le> 2 ^ 50"
  shows "ledger_f64 s'"
proof (cases "Buy_Condition r \<and> 0 < cash s \<and> last_action s \<noteq> Some Buy")
  case True
  define q where "q = floor_divide float64 (cash s) (Close r)"
  from assms(3) have cf: "float64 (cash s) = cash s"
    by (simp add: ledger_f64_def)
  from True assms(1,2) have "cash s' = float64 (cash s - float64 (q * Close r))"
    and "stock_quantity s' = q" and "\<exists>t \<in> set (transactions s'). tx_Quantity t = q"
    by (auto simp: loop_body_def Let_def q_def cf)
  note s' = this
  with assms(4) have "q \<le> 2 ^ 50"
    by auto
  with True assms(2) have k: "\<lfloor>cash s / Close r\<rfloor> \<le> 2 ^ 50"
    unfolding q_def by (intro floor_divide_float64_bound) simp_all
  with True assms(2) have q: "q = of_int \<lfloor>cash s / Close r\<rfloor>"
    unfolding q_def by (intro floor_divide_float64_floor) simp_all
  have "of_int \<lfloor>cash s / Close r\<rfloor> \<le> cash s / Close r"
    by (rule of_int_floor_le)
  then have le: "q * Close r \<le> cash s"
    using assms(2) unfolding q by (simp only: pos_le_divide_eq)
  have "0 \<le> cash s / Close r"
    using True assms(2) by simp
  then have q0: "0 \<le> q"
    unfolding q by simp
  then have "0 \<le> q * Close r"
    using assms(2) by simp
  from float64_below_double [OF this le cf] have "float64 (q * Close r) \<le> cash s" .
  then have "0 \<le> float64 (cash s - float64 (q * Close r))"
    by (intro float64_nonneg) simp
  with q0 show ?thesis
    by (simp add: s'(1,2) ledger_f64_def float64_idem)
next
  case False
  note nobuy = this
  show ?thesis
  proof (cases "Sell_Condition r \<and> 0 < stock_quantity s \<and> last_action s \<noteq> Some Sell")
    case True
    with nobuy assms(1)
    have "cash s' = float64 (float64 (cash s) + float64 (stock_quantity s * Close r))"
      and "stock_quantity s' = 0"
      by (auto simp: loop_body_def Let_def)
    moreover have "0 \<le> float64 (stock_quantity s * Close r)"
      using True assms(2) by (intro float64_nonneg) simp
    then have "0 \<le> float64 (float64 (cash s) + float64 (stock_quantity s * Close r))"
      using assms(3) by (intro float64_nonneg) (simp add: ledger_f64_def)
    ultimately show ?thesis
      by (simp add: ledger_f64_def float64_idem)
  next
    case False
    with nobuy assms(1) have "s' = s"
      by (auto simp: loop_body_def Let_def)
    with assms(3) show ?thesis by simp
  qed
qed

lemma loop_ledger_f64:
  assumes "loop float64 i rs s = Inr (rs', s')" and "\<forall>r \<in> set rs. 0 < Close r"
    and "ledger_f64 s" and "\<forall>t \<in> set (transactions s'). tx_Quantity t \<le> 2 ^ 50"
  shows "ledger_f64 s'"
  using assms
proof (induction rs arbitrary: i s rs')
  case Nil
  then show ?case by simp
next
  case (Cons r rs)
  from Cons.prems(1) obtain r1 s1 rs1 where
    b: "loop_body float64 i r s = Inr (r1, s1)" and l: "loop float64 (Suc i) rs s1 = Inr (rs1, s')"
    by (auto split: sum.splits prod.splits)
  from loop_journal [OF l] obtain ts where "transactions s' = transactions s1 @ ts"
    by blast
  with Cons.prems(4) have "\<forall>t \<in> set (transactions s1). tx_Quantity t \<le> 2 ^ 50"
    by simp
  with b Cons.prems(2,3) have "ledger_f64 s1"
    by (intro loop_body_ledger_f64 [of i r s r1 s1]) simp_all
  with l Cons.prems(2,4) show ?case
    by (intro Cons.IH [of "Suc i" s1 rs1]) simp_all
qed

lemma float64_pos:
  assumes "0 < x"
  shows "0 < float64 x"
proof -
  have "x / 2 ^ 53 < x"
    using assms by (simp add: field_simps)
  with float64_lower(1) [of x] assms show ?thesis
    by linarith
qed

lemma loop_body_float64_quantity:
  assumes "0 < Close r" and "0 \<le> stock_quantity s"
  shows "\<exists>r' s'. loop_body float64 i r s = Inr (r', s') \<and> 0 \<le> stock_quantity s'"
proof -
  have "0 \<le> floor_divide float64 (float64 (cash s)) (Close r)" if "0 < cash s"
    using float64_pos [OF that] assms(1) by (rule floor_divide_float64_nonneg)
  with assms show ?thesis
    by (simp add: loop_body_def Let_def)
qed

lemma loop_float64_quantity:
  assumes "\<forall>r \<in> set rs. 0 < Close r" and "0 \<le> stock_quantity s"
  shows "\<exists>rs' s'. loop float64 i rs s = Inr (rs', s') \<and> 0 \<le> stock_quantity s'"
  using assms
proof (induction rs arbitrary: i s)
  case Nil
  then show ?case by simp
next
  case (Cons r rs)
  from Cons.prems obtain r' s1 where
    b: "loop_body float64 i r s = Inr (r', s1)" and ok: "0 \<le> stock_quantity s1"
    using loop_body_float64_quantity [of r s i] by auto
  from Cons.prems have "\<forall>r \<in> set rs. 0 < Close r"
    by simp
  from Cons.IH [OF this ok, of "Suc i"] obtain rs' s' where
    "loop float64 (Suc i) rs s1 = Inr (rs', s')" and "0 \<le> stock_quantity s'"
    by blast
  with b show ?case by simp
qed

lemma floor_mult_le:
  fixes a b :: real
  assumes "0 < b"
  shows "of_int \<lfloor>a / b\<rfloor> * b \<le> a"
proof -
  have "real_of_int \<lfloor>a / b\<rfloor> \<le> a / b"
    by (rule of_int_floor_le)
  then show ?thesis
    using assms by (simp only: pos_le_divide_eq)
qed

lemma loop_body_ledger_ok:
  assumes "0 < Close r" and "ledger_ok s"
  shows "\<exists>r' s'. loop_body exact i r s = Inr (r', s') \<and> ledger_ok s'"
proof -
  have 1: "0 \<le> real_of_int \<lfloor>cash s / Close r\<rfloor>" if "0 < cash s"
    using that assms(1) by simp
  have 2: "real_of_int \<lfloor>cash s / Close r\<rfloor> * Close r \<le> cash s"
    using assms(1) by (rule floor_mult_le)
  have 3: "0 \<le> cash s + stock_quantity s * Close r"
    using assms by (simp add: ledger_ok_def)
  show ?thesis
    using assms 1 2 3
    by (simp add: loop_body_def Let_def ledger_ok_def exact_def floor_divide_exact)
qed

lemma loop_ledger_ok:
  assumes "\<forall>r \<in> set rs. 0 < Close r" and "ledger_ok s"
  shows "\<exists>rs' s'. loop exact i rs s = Inr (rs', s') \<and> ledger_ok s'"
  using assms
proof (induction rs arbitrary: i s)
  case Nil
  then show ?case by simp
next
  case (Cons r rs)
  from Cons.prems obtain r' s1 where
    b: "loop_body exact i r s = Inr (r', s1)" and ok: "ledger_ok s1"
    using loop_body_ledger_ok [of r s i] by auto
  from Cons.prems have "\<forall>r \<in> set rs. 0 < Close r"
    by simp
  from Cons.IH [OF this ok, of "Suc i"] obtain rs' s' where
    "loop exact (Suc i) rs s1 = Inr (rs', s')" and "ledger_ok s'"
    by blast
  with b show ?case by simp
qed

text \<open>
  The state after the first bars of a run is the state the whole run passes through: a
  run over \<open>xs @ ys\<close> is the run over \<open>xs\<close> followed by the run over \<open>ys\<close>.
\<close>

lemma loop_append:
  "loop rnd i (xs @ ys) s =
     (case loop rnd i xs s of
        Inl e \<Rightarrow> Inl e
      | Inr (xs', s') \<Rightarrow>
          (case loop rnd (i + length xs) ys s' of
             Inl e \<Rightarrow> Inl e
           | Inr (ys', s'') \<Rightarrow> Inr (xs' @ ys', s'')))"
  by (induction xs arbitrary: i s) (auto split: sum.splits prod.splits)

text \<open>
  C4, as the specification states it, fails in the arithmetic of the program. With an
  initial cash of \<open>1.2e17\<close> and a close of 11 the floor division of the doubles buys one
  share more than the cash pays for, and after the bar the cash is -16.
\<close>

theorem negative_cash_counterexample:
  "loop float64 0 penny_bar (initial_state 120000000000000000) =
     Inr ([(penny_bar ! 0)\<lparr>Buy_Signal := 1, Portfolio_Value := 120000000000000000\<rparr>],
          \<lparr>cash = - 16, stock_quantity = 10909090909090910,
           transactions =
             [\<lparr>tx_Date = 0, tx_Action = Buy, tx_Price = 11, tx_Quantity = 10909090909090910,
               tx_Cash = - 16, tx_Portfolio_Value = 120000000000000000\<rparr>],
           last_action = Some Buy, total_trades = 0, successful_trades = 0,
           last_buy_price = 11\<rparr>)"
  by (simp add: penny_bar_def evaluate_signals_def rising_def bar_def initial_state_def
        loop_body_def floor_divide_order float64_order_values float64_numeral)

text \<open>
  C4, amended. On a series whose close prices are all positive and with an initial cash
  that is not negative, the run reaches the end of every bar, and after every bar (after
  the first \<open>n\<close> bars from the start index, for every \<open>n\<close>) the cash and the quantity are
  not negative in exact arithmetic. In double arithmetic they are not negative as long
  as the initial cash is a double, the initial cash and the close prices are at most
  \<open>2 ^ 900\<close> and every buy recorded so far is of at most \<open>2 ^ 50\<close> shares.
\<close>

theorem ledger_never_negative:
  assumes "\<forall>r \<in> set data. 0 < Close r" and "0 \<le> initial_cash"
    and "start_index data = Inr k"
  shows "(\<exists>rs s. loop exact k (take n (drop k data)) (initial_state initial_cash) = Inr (rs, s) \<and>
            0 \<le> cash s \<and> 0 \<le> stock_quantity s) \<and>
         (\<exists>rs s. loop float64 k (take n (drop k data)) (initial_state initial_cash) = Inr (rs, s) \<and>
            (float64 initial_cash = initial_cash \<and> initial_cash \<le> 2 ^ 900 \<and>
             (\<forall>r \<in> set data. Close r \<le> 2 ^ 900) \<and>
             (\<forall>t \<in> set (transactions s). tx_Quantity t \<le> 2 ^ 50) \<longrightarrow>
             0 \<le> cash s \<and> 0 \<le> stock_quantity s))"
proof
  have pos: "\<forall>r \<in> set (take n (drop k data)). 0 < Close r"
    using assms(1) by (meson in_set_dropD in_set_takeD)
  have "ledger_ok (initial_state initial_cash)"
    using assms(2) by (simp add: ledger_ok_def initial_state_def)
  with pos show "\<exists>rs s. loop exact k (take n (drop k data)) (initial_state initial_cash) = Inr (rs, s) \<and>
            0 \<le> cash s \<and> 0 \<le> stock_quantity s"
    using loop_ledger_ok [of "take n (drop k data)" "initial_state initial_cash" k]
    by (simp add: ledger_ok_def)
  have "0 \<le> stock_quantity (initial_state initial_cash)"
    by (simp add: initial_state_def)
  from loop_float64_quantity [OF pos this, of k] obtain rs s where
    l: "loop float64 k (take n (drop k data)) (initial_state initial_cash) = Inr (rs, s)"
    and q: "0 \<le> stock_quantity s"
    by blast
  have "0 \<le> cash s"
    if "float64 initial_cash = initial_cash"
      and "\<forall>t \<in> set (transactions s). tx_Quantity t \<le> 2 ^ 50"
  proof -
    from that(1) assms(2) have "ledger_f64 (initial_state initial_cash)"
      by (simp add: ledger_f64_def initial_state_def)
    from loop_ledger_f64 [OF l pos this that(2)] show ?thesis
      by (simp add: ledger_f64_def)
  qed
  with l q show "\<exists>rs s. loop float64 k (take n (drop k data)) (initial_state initial_cash) = Inr (rs, s) \<and>
            (float64 initial_cash = initial_cash \<and> initial_cash \<le> 2 ^ 900 \<and>
             (\<forall>r \<in> set data. Close r \<le> 2 ^ 900) \<and>
             (\<forall>t \<in> set (transactions s). tx_Quantity t \<le> 2 ^ 50) \<longrightarrow>
             0 \<le> cash s \<and> 0 \<le> stock_quantity s)"
    by blast
qed

lemma loop_round_trip_float64:
  "loop float64 0 (take 2 (drop 0 round_trip)) (initial_state 1050) =
     Inr ([(round_trip ! 0)\<lparr>Buy_Signal := 1, Portfolio_Value := 1050\<rparr>,
           (round_trip ! 1)\<lparr>Sell_Signal := 1, Portfolio_Value := 1150\<rparr>],
          \<lparr>cash = 1150, stock_quantity = 0,
           transactions =
             [\<lparr>tx_Date = 0, tx_Action = Buy, tx_Price = 100, tx_Quantity = 10,
               tx_Cash = 50, tx_Portfolio_Value = 1050\<rparr>,
              \<lparr>tx_Date = 1, tx_Action = Sell, tx_Price = 110, tx_Quantity = 0,
               tx_Cash = 1150, tx_Portfolio_Value = 1150\<rparr>],
           last_action = Some Sell, total_trades = 1, successful_trades = 1,
           last_buy_price = 100\<rparr>)"
  by (simp add: round_trip_def evaluate_signals_def rising_def falling_def bar_def
        initial_state_def loop_body_def floor_divide_def fmod_def float64_numeral float64_zero)

theorem ledger_never_negative_witness:
  "(\<exists>rs s. loop exact 0 (take 2 (drop 0 round_trip)) (initial_state 1050) = Inr (rs, s) \<and>
      0 \<le> cash s \<and> 0 \<le> stock_quantity s) \<and>
   (\<exists>rs s. loop float64 0 (take 2 (drop 0 round_trip)) (initial_state 1050) = Inr (rs, s) \<and>
      0 \<le> cash s \<and> 0 \<le> stock_quantity s)"
proof -
  have "\<forall>r \<in> set round_trip. 0 < Close r"
    by (simp add: round_trip_def evaluate_signals_def rising_def falling_def bar_def)
  moreover have "start_index round_trip = Inr 0"
    by (simp add: start_index_def round_trip_def evaluate_signals_def rising_def
          falling_def bar_def)
  moreover have "float64 1050 = 1050"
    by (simp add: float64_numeral)
  ultimately show ?thesis
    using ledger_never_negative [of round_trip 1050 0 2] loop_round_trip_float64
    by auto
qed

lemma loop_preserves:
  assumes step: "\<And>i r s r' s'. loop_body rnd i r s = Inr (r', s') \<Longrightarrow> P s \<Longrightarrow> P s'"
    and "loop rnd i rs s = Inr (rs', s')" and "P s"
  shows "P s'"
  using assms(2,3)
proof (induction rs arbitrary: i s rs')
  case Nil
  then show ?case by simp
next
  case (Cons r rs)
  from Cons.prems(1) obtain r1 s1 rs1 where
    b: "loop_body rnd i r s = Inr (r1, s1)" and l: "loop rnd (Suc i) rs s1 = Inr (rs1, s')"
    by (auto split: sum.splits prod.splits)
  from step [OF b Cons.prems(2)] have "P s1" .
  from Cons.IH [OF l this] show ?case .
qed

lemma loop_body_debounced:
  assumes "loop_body rnd i r s = Inr (r', s')" and "debounced s"
  shows "debounced s'"
  using assms
  by (auto simp: loop_body_def Let_def debounced_def distinct_adj_append_iff last_map
           split: if_splits)

lemma loop_body_opens_with_buy:
  assumes "loop_body rnd i r s = Inr (r', s')" and "opens_with_buy s"
  shows "opens_with_buy s'"
  using assms
  by (auto simp: loop_body_def Let_def opens_with_buy_def split: if_splits list.splits)

lemma run_simulation_final:
  assumes "run_simulation rnd data c = Inr res"
  shows "\<exists>k rs s. loop rnd k (drop k data) (initial_state c) = Inr (rs, s) \<and>
           rr_transactions res = transactions s"
proof -
  from assms obtain k rs s where
    "loop rnd k (drop k data) (initial_state c) = Inr (rs, s)"
    and "res = \<lparr>rr_data = take k data @ rs, rr_transactions = transactions s,
           rr_total_trades = total_trades s, rr_successful_trades = successful_trades s\<rparr>"
    by (auto simp: run_simulation_def split: sum.splits prod.splits)
  then show ?thesis by auto
qed

lemma run_simulation_round_trip:
  "run_simulation float64 round_trip 1000 =
     Inr \<lparr>rr_data =
            [(round_trip ! 0)\<lparr>Buy_Signal := 1, Portfolio_Value := 1000\<rparr>,
             (round_trip ! 1)\<lparr>Sell_Signal := 1, Portfolio_Value := 1100\<rparr>],
          rr_transactions =
            [\<lparr>tx_Date = 0, tx_Action = Buy, tx_Price = 100, tx_Quantity = 10,
              tx_Cash = 0, tx_Portfolio_Value = 1000\<rparr>,
             \<lparr>tx_Date = 1, tx_Action = Sell, tx_Price = 110, tx_Quantity = 0,
              tx_Cash = 1100, tx_Portfolio_Value = 1100\<rparr>],
          rr_total_trades = 1, rr_successful_trades = 1\<rparr>"
  by (simp add: run_simulation_def start_index_def loop_body_def floor_divide_def fmod_def
        float64_numeral float64_zero
        round_trip_def evaluate_signals_def rising_def falling_def bar_def initial_state_def)

text \<open>
  C6. In the journal of a run no two consecutive lines are both buys and no two are both
  sells; hence between two lines of the same action there is a line of the other one.
\<close>

theorem journal_alternates:
  assumes "run_simulation rnd data initial_cash = Inr res"
  shows "(\<forall>i. Suc i < length (rr_transactions res) \<longrightarrow>
            tx_Action (rr_transactions res ! i) \<noteq> tx_Action (rr_transactions res ! Suc i)) \<and>
         (\<forall>i j. i < j \<and> j < length (rr_transactions res) \<and>
            tx_Action (rr_transactions res ! i) = tx_Action (rr_transactions res ! j) \<longrightarrow>
            (\<exists>k. i < k \<and> k < j \<and>
               tx_Action (rr_transactions res ! k) \<noteq> tx_Action (rr_transactions res ! i)))"
proof -
  from run_simulation_final [OF assms] obtain k rs s where
    l: "loop rnd k (drop k data) (initial_state initial_cash) = Inr (rs, s)"
    and j: "rr_transactions res = transactions s"
    by blast
  have "debounced (initial_state initial_cash)"
    by (simp add: debounced_def initial_state_def)
  with l have "debounced s"
    by (rule loop_preserves [where P = debounced, rotated]) (rule loop_body_debounced)
  then have "distinct_adj (map tx_Action (rr_transactions res))"
    by (simp add: debounced_def j)
  then have adj: "Suc i < length (rr_transactions res) \<Longrightarrow>
      tx_Action (rr_transactions res ! i) \<noteq> tx_Action (rr_transactions res ! Suc i)" for i
    by (auto simp: distinct_adj_conv_nth)
  have "\<exists>k. i < k \<and> k < j \<and>
          tx_Action (rr_transactions res ! k) \<noteq> tx_Action (rr_transactions res ! i)"
    if "i < j" and "j < length (rr_transactions res)"
      and "tx_Action (rr_transactions res ! i) = tx_Action (rr_transactions res ! j)" for i j
  proof -
    from that adj [of i] have "j \<noteq> Suc i"
      by auto
    with that have "Suc i < j"
      by simp
    moreover from this that adj [of i]
    have "tx_Action (rr_transactions res ! Suc i) \<noteq> tx_Action (rr_transactions res ! i)"
      by simp
    ultimately show ?thesis by blast
  qed
  with adj show ?thesis by blast
qed

theorem journal_alternates_witness:
  "\<exists>res. run_simulation float64 round_trip 1000 = Inr res \<and> length (rr_transactions res) = 2 \<and>
     tx_Action (rr_transactions res ! 0) \<noteq> tx_Action (rr_transactions res ! Suc 0)"
  using journal_alternates [OF run_simulation_round_trip] run_simulation_round_trip
  by simp

text \<open>
  C10. A journal that is not empty starts with a buy: a sell needs a positive quantity,
  and the quantity is 0 until the first buy.
\<close>

theorem journal_opens_with_buy:
  assumes "run_simulation rnd data initial_cash = Inr res" and "rr_transactions res \<noteq> []"
  shows "tx_Action (hd (rr_transactions res)) = Buy"
proof -
  from run_simulation_final [OF assms(1)] obtain k rs s where
    l: "loop rnd k (drop k data) (initial_state initial_cash) = Inr (rs, s)"
    and j: "rr_transactions res = transactions s"
    by blast
  have "opens_with_buy (initial_state initial_cash)"
    by (simp add: opens_with_buy_def initial_state_def)
  with l have "opens_with_buy s"
    by (rule loop_preserves [where P = opens_with_buy, rotated]) (rule loop_body_opens_with_buy)
  with assms(2) show ?thesis
    by (auto simp: opens_with_buy_def j split: list.splits)
qed

theorem journal_opens_with_buy_witness:
  "\<exists>res. run_simulation float64 round_trip 1000 = Inr res \<and> rr_transactions res \<noteq> [] \<and>
     tx_Action (hd (rr_transactions res)) = Buy"
  using journal_opens_with_buy [OF run_simulation_round_trip] run_simulation_round_trip
  by simp

end
